theory Spec2Isabelle
  imports Complex_Main "HOL-Library.Log_Nat"
begin

section \<open>JavaScript values used by the location extractor\<close>

text \<open>
  A JavaScript number is an IEEE-754 double: not-a-number, one of the two infinities, or
  a finite value, which is a rational. The sign of zero is not tracked: no comparison in
  the extractor tells \<open>-0\<close> from \<open>0\<close>. Strings are lists of code units; the model keeps
  the code units below 256.
\<close>

datatype jsnum = NaN | PosInf | NegInf | Fin rat

text \<open>The relational operator \<open>a <= b\<close> on numbers: false as soon as one side is NaN.\<close>

fun num_le :: "jsnum \<Rightarrow> jsnum \<Rightarrow> bool" where
  "num_le NaN _ = False"
| "num_le _ NaN = False"
| "num_le NegInf _ = True"
| "num_le _ PosInf = True"
| "num_le PosInf _ = False"
| "num_le _ NegInf = False"
| "num_le (Fin a) (Fin b) = (a \<le> b)"

definition num_ge :: "jsnum \<Rightarrow> jsnum \<Rightarrow> bool" where
  "num_ge a b = num_le b a"

definition isNaN :: "jsnum \<Rightarrow> bool" where
  "isNaN x = (x = NaN)"

subsection \<open>Rounding a rational to the nearest double\<close>

definition pow2 :: "int \<Rightarrow> rat" where
  "pow2 k = (if 0 \<le> k then 2 ^ nat k else 1 / 2 ^ nat (- k))"

text \<open>The exponent \<open>e\<close> with \<open>2^e \<le> a < 2^(e+1)\<close>, for a positive rational \<open>a\<close>.\<close>

definition ilog2 :: "rat \<Rightarrow> int" where
  "ilog2 a = (if 1 \<le> a then int (floorlog 2 (nat \<lfloor>a\<rfloor>)) - 1
              else - int (floorlog 2 (nat (\<lceil>1 / a\<rceil> - 1))))"

definition round_half_even :: "rat \<Rightarrow> int" where
  "round_half_even x =
     (let f = \<lfloor>x\<rfloor>; d = x - of_int f
      in if d < 1 / 2 then f else if 1 / 2 < d then f + 1
         else if even f then f else f + 1)"

text \<open>
  Round to nearest, ties to even, with 53 bits of precision and gradual underflow below
  \<open>2^-1022\<close>: the magnitude becomes \<open>n\<close> units of \<open>2^(e-52)\<close>. The result is an
  infinity when that reaches \<open>2^1024\<close>, which is when \<open>e\<close> is 1024 or more, or \<open>e\<close>
  is 1023 and \<open>n\<close> was rounded up to \<open>2^53\<close>.
\<close>

definition to_double :: "rat \<Rightarrow> jsnum" where
  "to_double q =
     (if q = 0 then Fin 0
      else let a = \<bar>q\<bar>;
               e = max (ilog2 a) (- 1022);
               u = pow2 (e - 52);
               n = round_half_even (a / u)
           in if 1024 \<le> e \<or> (e = 1023 \<and> n = 2 ^ 53)
              then (if 0 < q then PosInf else NegInf)
              else Fin (if 0 < q then of_int n * u else - (of_int n * u)))"

subsection \<open>Characters\<close>

definition is_digit :: "char \<Rightarrow> bool" where
  "is_digit c = (c \<in> set ''0123456789'')"

definition digit_val :: "char \<Rightarrow> nat" where
  "digit_val c = of_char c - 48"

text \<open>White space and line terminators (\<open>\s\<close>, \<open>trim\<close>, the prefix \<open>parseFloat\<close> skips).\<close>

definition is_ws :: "char \<Rightarrow> bool" where
  "is_ws c = (c \<in> set [CHR 0x09, CHR 0x0A, CHR 0x0B, CHR 0x0C, CHR 0x0D, CHR 0x20, CHR 0xA0])"

subsection \<open>\<open>String.prototype.trim\<close>, \<open>split\<close> and \<open>includes\<close>\<close>

definition trim :: "string \<Rightarrow> string" where
  "trim s = rev (dropWhile is_ws (rev (dropWhile is_ws s)))"

text \<open>\<open>s.split(sep)\<close> for a one-character separator: never the empty array.\<close>

fun js_split :: "char \<Rightarrow> string \<Rightarrow> string list" where
  "js_split sep [] = [[]]"
| "js_split sep (c # cs) =
     (if c = sep then [] # js_split sep cs
      else (c # hd (js_split sep cs)) # tl (js_split sep cs))"

definition starts_with :: "string \<Rightarrow> string \<Rightarrow> bool" where
  "starts_with p s = (take (length p) s = p)"

fun str_includes :: "string \<Rightarrow> string \<Rightarrow> bool" where
  "str_includes [] p = (p = [])"
| "str_includes (c # cs) p = (starts_with p (c # cs) \<or> str_includes cs p)"

subsection \<open>\<open>parseFloat\<close>\<close>

definition digits_value :: "string \<Rightarrow> nat" where
  "digits_value ds = foldl (\<lambda>a c. 10 * a + digit_val c) 0 ds"

definition pow10 :: "int \<Rightarrow> rat" where
  "pow10 k = (if 0 \<le> k then 10 ^ nat k else 1 / 10 ^ nat (- k))"

text \<open>
  The exponent part \<open>e\<close> or \<open>E\<close>, an optional sign, and at least one digit; without a
  digit the exponent part is not part of the literal and the exponent is 0.
\<close>

definition exponent_part :: "string \<Rightarrow> int" where
  "exponent_part r =
     (if r \<noteq> [] \<and> (hd r = CHR ''e'' \<or> hd r = CHR ''E'') then
        let r1 = tl r;
            neg = (r1 \<noteq> [] \<and> hd r1 = CHR ''-'');
            r2 = (if r1 \<noteq> [] \<and> (hd r1 = CHR ''-'' \<or> hd r1 = CHR ''+'') then tl r1 else r1);
            ds = takeWhile is_digit r2
        in if ds = [] then 0
           else if neg then - int (digits_value ds) else int (digits_value ds)
      else 0)"

text \<open>
  \<open>parseFloat\<close> skips leading white space, takes the longest prefix that is a signed
  decimal literal (\<open>Infinity\<close>, or digits with an optional fraction and exponent) and
  rounds its value; NaN when there is no such prefix.
\<close>

definition parseFloat :: "string \<Rightarrow> jsnum" where
  "parseFloat s =
     (let t = dropWhile is_ws s;
          neg = (t \<noteq> [] \<and> hd t = CHR ''-'');
          u = (if t \<noteq> [] \<and> (hd t = CHR ''-'' \<or> hd t = CHR ''+'') then tl t else t)
      in if starts_with ''Infinity'' u then (if neg then NegInf else PosInf)
         else
           let ip = takeWhile is_digit u;
               r1 = dropWhile is_digit u;
               dot = (r1 \<noteq> [] \<and> hd r1 = CHR ''.'');
               fp = (if dot then takeWhile is_digit (tl r1) else []);
               r2 = (if dot then dropWhile is_digit (tl r1) else r1)
           in if ip = [] \<and> fp = [] then NaN
              else
                let mv = (of_nat (digits_value ip)
                          + of_nat (digits_value fp) / 10 ^ length fp)
                         * pow10 (exponent_part r2)
                in to_double (if neg then - mv else mv))"

section \<open>Utils\<close>

text \<open>
  \<open>Utils.parseCoordinates\<close>: the argument is a string or absent (\<open>null\<close>); the empty
  string is falsy, as \<open>null\<close> is.
\<close>

definition parseCoordinates :: "string option \<Rightarrow> (jsnum \<times> jsnum) option" where
  "parseCoordinates coordString =
     (case coordString of
        None \<Rightarrow> None
      | Some s \<Rightarrow>
          if s = [] then None
          else
            let parts = map (\<lambda>p. parseFloat (trim p)) (js_split CHR '','' s)
            in if length parts = 2 \<and> \<not> isNaN (parts ! 0) \<and> \<not> isNaN (parts ! 1)
               then Some (parts ! 0, parts ! 1)
               else None)"

section \<open>Regular expressions\<close>

text \<open>
  The two regular expressions of the extractor are sequences of single characters,
  optional characters and greedy repetitions of a character class, with capture groups
  around some subsequences. The matcher is the backtracking one: every item lists the
  remainders it can leave, the preferred one first, and the first complete path wins.
\<close>

datatype cls = Digit | Space | DigitOrDot

fun in_cls :: "cls \<Rightarrow> char \<Rightarrow> bool" where
  "in_cls Digit c = is_digit c"
| "in_cls Space c = is_ws c"
| "in_cls DigitOrDot c = (is_digit c \<or> c = CHR ''.'')"

datatype item = Ch char | Opt char | Plus cls | Star cls

text \<open>Greedy repetition: the longest run first, then every shorter one.\<close>

fun star :: "cls \<Rightarrow> string \<Rightarrow> string list" where
  "star k [] = [[]]"
| "star k (x # xs) = (if in_cls k x then star k xs @ [x # xs] else [x # xs])"

fun step :: "item \<Rightarrow> string \<Rightarrow> string list" where
  "step (Ch c) s = (case s of [] \<Rightarrow> [] | x # xs \<Rightarrow> if x = c then [xs] else [])"
| "step (Opt c) s = (case s of [] \<Rightarrow> [[]] | x # xs \<Rightarrow> if x = c then [xs, s] else [s])"
| "step (Plus k) s = (case s of [] \<Rightarrow> [] | x # xs \<Rightarrow> if in_cls k x then star k xs else [])"
| "step (Star k) s = star k s"

fun run :: "item list \<Rightarrow> string \<Rightarrow> string list" where
  "run [] s = [s]"
| "run (i # is) s = concat (map (run is) (step i s))"

datatype part = Plain "item list" | Group "item list"

definition consumed :: "string \<Rightarrow> string \<Rightarrow> string" where
  "consumed s r = take (length s - length r) s"

text \<open>Captures and remainder of every way to match the parts at the start of \<open>s\<close>.\<close>

fun parts_run :: "part list \<Rightarrow> string \<Rightarrow> (string list \<times> string) list" where
  "parts_run [] s = [([], s)]"
| "parts_run (Plain is # ps) s = concat (map (parts_run ps) (run is s))"
| "parts_run (Group is # ps) s =
     concat (map (\<lambda>r. map (\<lambda>(caps, r'). (consumed s r # caps, r')) (parts_run ps r))
                 (run is s))"

text \<open>A match at the start of \<open>s\<close>: the matched text, the captures, the rest.\<close>

definition exec_at :: "part list \<Rightarrow> string \<Rightarrow> (string \<times> string list \<times> string) option" where
  "exec_at p s =
     (case parts_run p s of [] \<Rightarrow> None | (caps, r) # _ \<Rightarrow> Some (consumed s r, caps, r))"

text \<open>The leftmost match: the start position moves right until a match is found.\<close>

fun exec :: "part list \<Rightarrow> string \<Rightarrow> (string \<times> string list \<times> string) option" where
  "exec p [] = exec_at p []"
| "exec p (c # cs) = (case exec_at p (c # cs) of Some m \<Rightarrow> Some m | None \<Rightarrow> exec p cs)"

text \<open>\<open>/!3d(-?[\d.]+)!4d(-?[\d.]+)/\<close>\<close>

definition pb_pattern :: "part list" where
  "pb_pattern =
     [Plain [Ch CHR ''!'', Ch CHR ''3'', Ch CHR ''d''],
      Group [Opt CHR ''-'', Plus DigitOrDot],
      Plain [Ch CHR ''!'', Ch CHR ''4'', Ch CHR ''d''],
      Group [Opt CHR ''-'', Plus DigitOrDot]]"

text \<open>\<open>/[-]?\d+\.\d+,\s*[-]?\d+\.\d+/g\<close>\<close>

definition coord_pattern :: "part list" where
  "coord_pattern =
     [Plain [Opt CHR ''-'', Plus Digit, Ch CHR ''.'', Plus Digit, Ch CHR '','', Star Space,
             Opt CHR ''-'', Plus Digit, Ch CHR ''.'', Plus Digit]]"

text \<open>
  \<open>text.match(re)\<close> for a global expression: the matched texts from left to right,
  each search starting where the previous match ended (one code unit further after an
  empty match); \<open>null\<close> is the empty list. The test on the lengths never fails for a
  non-empty text, whose rest is a proper suffix; for the empty text it ends the loop as
  the advanced \<open>lastIndex\<close> does.
\<close>

function match_all :: "part list \<Rightarrow> string \<Rightarrow> string list" where
  "match_all p s =
     (case exec p s of
        None \<Rightarrow> []
      | Some (m, caps, rest) \<Rightarrow>
          m # (let next = (if m = [] then drop 1 rest else rest)
               in if length next < length s then match_all p next else []))"
  by pat_completeness auto
termination
  by (relation "measure (\<lambda>(p, s). length s)") auto

declare match_all.simps [simp del]

section \<open>LocationExtractor\<close>

datatype js_error = TypeError | InvalidStateError | NetworkError

record coordinate =
  lat :: jsnum
  lng :: jsnum
  source :: string

text \<open>
  An iframe of the document: its \<open>src\<close> attribute, and what \<open>new URL(iframe.src)\<close>
  gives, either a TypeError or the URL, of which the extractor reads the decoded query
  parameters only.
\<close>

record iframe =
  src_attr :: string
  new_URL :: "js_error + (string \<times> string) list"

type_synonym document = "iframe list"

definition searchParams_has :: "(string \<times> string) list \<Rightarrow> string \<Rightarrow> bool" where
  "searchParams_has ps k = (map_of ps k \<noteq> None)"

definition searchParams_get :: "(string \<times> string) list \<Rightarrow> string \<Rightarrow> string option" where
  "searchParams_get ps k = map_of ps k"

text \<open>\<open>document.querySelectorAll('iframe[src*="google.com/maps"]')\<close>, in document order.\<close>

definition querySelectorAll :: "document \<Rightarrow> iframe list" where
  "querySelectorAll doc = filter (\<lambda>f. str_includes (src_attr f) ''google.com/maps'') doc"

text \<open>The pb matcher: \<open>pb.match(/!3d(-?[\d.]+)!4d(-?[\d.]+)/)\<close> and the two \<open>parseFloat\<close>.\<close>

definition pb_match :: "string \<Rightarrow> coordinate option" where
  "pb_match pb =
     (case exec pb_pattern pb of
        Some (m, [g1, g2], rest) \<Rightarrow>
          Some \<lparr>lat = parseFloat g1, lng = parseFloat g2, source = ''iframe-pb''\<rparr>
      | _ \<Rightarrow> None)"

text \<open>
  The body of the inner \<open>try\<close> for one iframe: \<open>Inl\<close> when it throws,
  \<open>Inr (Some c)\<close> when it returns \<open>c\<close>, \<open>Inr None\<close> when it falls through.
\<close>

definition scan_iframe :: "iframe \<Rightarrow> js_error + coordinate option" where
  "scan_iframe f =
     (case new_URL f of
        Inl err \<Rightarrow> Inl err
      | Inr ps \<Rightarrow>
          (case (if searchParams_has ps ''pb''
                 then (case searchParams_get ps ''pb'' of Some pb \<Rightarrow> pb_match pb | None \<Rightarrow> None)
                 else None) of
             Some c \<Rightarrow> Inr (Some c)
           | None \<Rightarrow>
               if searchParams_has ps ''location''
               then (case parseCoordinates (searchParams_get ps ''location'') of
                       Some (a, b) \<Rightarrow> Inr (Some \<lparr>lat = a, lng = b, source = ''iframe-location''\<rparr>)
                     | None \<Rightarrow> Inr None)
               else Inr None))"

text \<open>The \<open>for\<close> loop: the inner \<open>catch\<close> continues with the next iframe.\<close>

fun scan_loop :: "iframe list \<Rightarrow> js_error + coordinate option" where
  "scan_loop [] = Inr None"
| "scan_loop (f # fs) =
     (case scan_iframe f of
        Inl err \<Rightarrow> scan_loop fs
      | Inr (Some c) \<Rightarrow> Inr (Some c)
      | Inr None \<Rightarrow> scan_loop fs)"

text \<open>The outer \<open>catch\<close> logs the error and the function returns \<open>null\<close>.\<close>

definition extractFromIframe :: "document \<Rightarrow> js_error + coordinate option" where
  "extractFromIframe doc =
     (case scan_loop (querySelectorAll doc) of Inl err \<Rightarrow> Inr None | Inr r \<Rightarrow> Inr r)"

text \<open>
  \<open>getCurrentLocation\<close>, on the document and \<open>LocationExtractor.currentLocation\<close>:
  the value returned and the new \<open>currentLocation\<close>.
\<close>

definition getCurrentLocation ::
  "document \<Rightarrow> coordinate option \<Rightarrow> js_error + (coordinate option \<times> coordinate option)" where
  "getCurrentLocation doc currentLocation =
     (case extractFromIframe doc of
        Inl err \<Rightarrow> Inl err
      | Inr (Some iframeLocation) \<Rightarrow> Inr (Some iframeLocation, Some iframeLocation)
      | Inr None \<Rightarrow> Inr (currentLocation, currentLocation))"

text \<open>The callback of \<open>monitorDOM\<close> for an added node that is or holds a map iframe.\<close>

definition monitorDOM_added :: "document \<Rightarrow> coordinate option \<Rightarrow> js_error + coordinate option" where
  "monitorDOM_added doc currentLocation =
     (case extractFromIframe doc of
        Inl err \<Rightarrow> Inl err
      | Inr (Some location) \<Rightarrow> Inr (Some location)
      | Inr None \<Rightarrow> Inr currentLocation)"

subsection \<open>The network interceptors\<close>

text \<open>
  What both interceptors do with a body: the first match of the coordinate expression,
  \<open>parseCoordinates\<close> on it, and the range test. The fetch wrapper tests both ranges,
  the XHR load handler the latitude only.
\<close>

definition fetch_inspect :: "string \<Rightarrow> coordinate option \<Rightarrow> coordinate option" where
  "fetch_inspect text currentLocation =
     (case match_all coord_pattern text of
        [] \<Rightarrow> currentLocation
      | m # _ \<Rightarrow>
          (case parseCoordinates (Some m) of
             None \<Rightarrow> currentLocation
           | Some (a, b) \<Rightarrow>
               if num_ge a (Fin (- 90)) \<and> num_le a (Fin 90) \<and>
                  num_ge b (Fin (- 180)) \<and> num_le b (Fin 180)
               then Some \<lparr>lat = a, lng = b, source = ''fetch''\<rparr>
               else currentLocation))"

definition xhr_inspect :: "string \<Rightarrow> coordinate option \<Rightarrow> coordinate option" where
  "xhr_inspect text currentLocation =
     (case match_all coord_pattern text of
        [] \<Rightarrow> currentLocation
      | m # _ \<Rightarrow>
          (case parseCoordinates (Some m) of
             None \<Rightarrow> currentLocation
           | Some (a, b) \<Rightarrow>
               if num_ge a (Fin (- 90)) \<and> num_le a (Fin 90)
               then Some \<lparr>lat = a, lng = b, source = ''xhr''\<rparr>
               else currentLocation))"

text \<open>
  Response objects live in a store. \<open>clone\<close> throws a TypeError on a response whose
  body was read and allocates a copy otherwise; \<open>text()\<close> rejects on a body already
  read, marks the body read, and rejects when the body cannot be read to its end.
\<close>

record response =
  body :: "js_error + string"
  bodyUsed :: bool

type_synonym store = "response list"

definition clone :: "nat \<Rightarrow> store \<Rightarrow> (js_error + nat) \<times> store" where
  "clone r h =
     (if r < length h \<and> \<not> bodyUsed (h ! r) then (Inr (length h), h @ [h ! r])
      else (Inl TypeError, h))"

definition response_text :: "nat \<Rightarrow> store \<Rightarrow> (js_error + string) \<times> store" where
  "response_text r h =
     (if r < length h \<and> \<not> bodyUsed (h ! r)
      then (body (h ! r), h[r := (h ! r)\<lparr>bodyUsed := True\<rparr>])
      else (Inl TypeError, h))"

text \<open>
  The \<open>try\<close> block of the wrapped \<open>fetch\<close>, on the first argument as a string
  (\<open>args[0]?.toString() || ''\<close>, absent when there is none) and the response.
\<close>

definition fetch_try ::
  "string option \<Rightarrow> nat \<Rightarrow> coordinate option \<times> store \<Rightarrow> (js_error + unit) \<times> coordinate option \<times> store" where
  "fetch_try arg0 resp st =
     (let url = (case arg0 of None \<Rightarrow> [] | Some u \<Rightarrow> u); cur = fst st; h = snd st
      in if str_includes url ''maps'' \<or> str_includes url ''location'' \<or> str_includes url ''coordinates''
         then (case clone resp h of
                 (Inl err, h1) \<Rightarrow> (Inl err, cur, h1)
               | (Inr clonedResponse, h1) \<Rightarrow>
                   (case response_text clonedResponse h1 of
                      (Inl err, h2) \<Rightarrow> (Inl err, cur, h2)
                    | (Inr text, h2) \<Rightarrow> (Inr (), fetch_inspect text cur, h2)))
         else (Inr (), cur, h))"

text \<open>
  The wrapped \<open>fetch\<close>, given the outcome of the original one: a rejection is passed
  on; otherwise the \<open>try\<close> block runs, its error is dropped, and the response of the
  original \<open>fetch\<close> is returned.
\<close>

definition wrapped_fetch ::
  "string option \<Rightarrow> js_error + nat \<Rightarrow> coordinate option \<times> store
     \<Rightarrow> (js_error + nat) \<times> coordinate option \<times> store" where
  "wrapped_fetch arg0 original st =
     (case original of
        Inl err \<Rightarrow> (Inl err, st)
      | Inr resp \<Rightarrow> (Inr resp, snd (fetch_try arg0 resp st)))"

text \<open>
  The load handler the wrapped \<open>send\<close> installs, on \<open>this._url\<close> (absent when
  \<open>open\<close> was not called) and \<open>this.responseText\<close>, whose getter throws for a
  non-text response type. Every error is caught and dropped.
\<close>

definition xhr_load :: "string option \<Rightarrow> js_error + string \<Rightarrow> coordinate option \<Rightarrow> coordinate option" where
  "xhr_load url responseText currentLocation =
     (case url of
        None \<Rightarrow> currentLocation
      | Some u \<Rightarrow>
          if u \<noteq> [] \<and> (str_includes u ''maps'' \<or> str_includes u ''location'')
          then (case responseText of
                  Inl err \<Rightarrow> currentLocation
                | Inr text \<Rightarrow> xhr_inspect text currentLocation)
          else currentLocation)"

section \<open>Notions used in the statements\<close>

text \<open>The texts an item can consume.\<close>

fun item_lang :: "item \<Rightarrow> string \<Rightarrow> bool" where
  "item_lang (Ch c) m = (m = [c])"
| "item_lang (Opt c) m = (m = [] \<or> m = [c])"
| "item_lang (Plus k) m = (m \<noteq> [] \<and> list_all (in_cls k) m)"
| "item_lang (Star k) m = list_all (in_cls k) m"

text \<open>
  A string starts with a number for \<open>parseFloat\<close>: after white space and an optional sign
  comes \<open>Infinity\<close>, a digit, or a point followed by a digit.
\<close>

definition has_numeric_prefix :: "string \<Rightarrow> bool" where
  "has_numeric_prefix s =
     (let t = dropWhile is_ws s;
          u = (if t \<noteq> [] \<and> (hd t = CHR ''-'' \<or> hd t = CHR ''+'') then tl t else t)
      in starts_with ''Infinity'' u
         \<or> (u \<noteq> [] \<and> is_digit (hd u))
         \<or> (u \<noteq> [] \<and> hd u = CHR ''.'' \<and> tl u \<noteq> [] \<and> is_digit (hd (tl u))))"

text \<open>
  A decimal numeral, as a \<open>pb\<close> parameter writes a coordinate: an optional minus sign,
  the digits of the integer part and, when there are any, a point and the digits of the
  fraction. \<open>decimal_value\<close> is the number the numeral denotes.
\<close>

definition digit_char :: "nat \<Rightarrow> char" where
  "digit_char d = ''0123456789'' ! d"

definition digits_nat :: "nat list \<Rightarrow> nat" where
  "digits_nat ds = foldl (\<lambda>a d. 10 * a + d) 0 ds"

definition decimal :: "bool \<Rightarrow> nat list \<Rightarrow> nat list \<Rightarrow> string" where
  "decimal neg ip fp =
     (if neg then ''-'' else []) @ map digit_char ip
       @ (if fp = [] then [] else CHR ''.'' # map digit_char fp)"

definition decimal_value :: "bool \<Rightarrow> nat list \<Rightarrow> nat list \<Rightarrow> rat" where
  "decimal_value neg ip fp =
     (let v = of_nat (digits_nat ip) + of_nat (digits_nat fp) / 10 ^ length fp
      in if neg then - v else v)"

section \<open>Properties of the matcher\<close>

text \<open>Every remainder the matcher lists is a suffix, and the text before it fits the items.\<close>

lemma star_lang: "r \<in> set (star k s) \<Longrightarrow> \<exists>m. s = m @ r \<and> list_all (in_cls k) m"
proof (induction s)
  case Nil
  then show ?case by simp
next
  case (Cons x xs)
  show ?case
  proof (cases "in_cls k x \<and> r \<in> set (star k xs)")
    case True
    then obtain m where "xs = m @ r" "list_all (in_cls k) m"
      using Cons.IH by blast
    then have "x # xs = (x # m) @ r \<and> list_all (in_cls k) (x # m)"
      using True by simp
    then show ?thesis by blast
  next
    case False
    then have "r = x # xs"
      using Cons.prems by (auto split: if_splits)
    then show ?thesis by simp
  qed
qed

lemma step_lang: "r \<in> set (step i s) \<Longrightarrow> \<exists>m. s = m @ r \<and> item_lang i m"
proof (cases i)
  case (Ch c)
  assume "r \<in> set (step i s)"
  then show ?thesis using Ch by (cases s) (auto split: if_splits)
next
  case (Opt c)
  assume "r \<in> set (step i s)"
  then show ?thesis using Opt by (cases s) (auto split: if_splits)
next
  case (Plus k)
  assume a: "r \<in> set (step i s)"
  then obtain x xs where s: "s = x # xs" "in_cls k x" "r \<in> set (star k xs)"
    using Plus by (cases s) (auto split: if_splits)
  then obtain m where "xs = m @ r" "list_all (in_cls k) m"
    using star_lang by blast
  then have "s = (x # m) @ r \<and> item_lang i (x # m)"
    using s Plus by simp
  then show ?thesis by blast
next
  case (Star k)
  assume "r \<in> set (step i s)"
  then show ?thesis using Star star_lang by simp
qed

lemma run_lang:
  "r \<in> set (run items s) \<Longrightarrow> \<exists>ms. s = concat ms @ r \<and> list_all2 item_lang items ms"
proof (induction items arbitrary: s)
  case Nil
  then show ?case by simp
next
  case (Cons i items)
  from Cons.prems obtain r1 where r1: "r1 \<in> set (step i s)" "r \<in> set (run items r1)"
    by auto
  from step_lang [OF r1(1)] obtain m where m: "s = m @ r1" "item_lang i m" by blast
  from Cons.IH [OF r1(2)] obtain ms where ms: "r1 = concat ms @ r" "list_all2 item_lang items ms"
    by blast
  have "s = concat (m # ms) @ r \<and> list_all2 item_lang (i # items) (m # ms)"
    using m ms by simp
  then show ?case by blast
qed

lemma run_suffix: "r \<in> set (run items s) \<Longrightarrow> \<exists>m. s = m @ r"
  using run_lang by blast

lemma parts_run_suffix: "(caps, r) \<in> set (parts_run p s) \<Longrightarrow> \<exists>m. s = m @ r"
proof (induction p s arbitrary: caps rule: parts_run.induct)
  case (1 s)
  then show ?case by simp
next
  case (2 items ps s)
  from "2.prems" obtain r1 where r1: "r1 \<in> set (run items s)" "(caps, r) \<in> set (parts_run ps r1)"
    by auto
  from "2.IH" [OF r1] obtain m where "r1 = m @ r" by blast
  moreover from run_suffix [OF r1(1)] obtain m1 where "s = m1 @ r1" by blast
  ultimately have "s = (m1 @ m) @ r" by simp
  then show ?case by blast
next
  case (3 items ps s)
  from "3.prems" obtain r1 caps' where r1: "r1 \<in> set (run items s)"
      "(caps', r) \<in> set (parts_run ps r1)"
    by auto
  from "3.IH" [OF r1] obtain m where "r1 = m @ r" by blast
  moreover from run_suffix [OF r1(1)] obtain m1 where "s = m1 @ r1" by blast
  ultimately have "s = (m1 @ m) @ r" by simp
  then show ?case by blast
qed

lemma exec_at_split:
  "exec_at p s = Some (m, caps, r) \<Longrightarrow> s = m @ r \<and> (caps, r) \<in> set (parts_run p s)"
proof -
  assume a: "exec_at p s = Some (m, caps, r)"
  then have in_set: "(caps, r) \<in> set (parts_run p s)" and m: "m = consumed s r"
    by (auto simp: exec_at_def split: list.splits)
  from parts_run_suffix [OF in_set] obtain m' where "s = m' @ r" by blast
  then show ?thesis using m in_set by (simp add: consumed_def)
qed

text \<open>The match \<open>exec\<close> returns starts at the first position where the pattern matches.\<close>

lemma exec_leftmost:
  "exec p s = Some res \<Longrightarrow>
     \<exists>pre s'. s = pre @ s' \<and> exec_at p s' = Some res \<and> (\<forall>i<length pre. exec_at p (drop i s) = None)"
proof (induction s)
  case Nil
  have a: "([]::string) = [] @ []" by simp
  have b: "exec_at p [] = Some res" using Nil by simp
  have c: "\<forall>i<length ([]::string). exec_at p (drop i []) = None" by simp
  from a b c show ?case by blast
next
  case (Cons c cs)
  show ?case
  proof (cases "exec_at p (c # cs)")
    case (Some a)
    have a: "c # cs = [] @ (c # cs)" by simp
    have b: "exec_at p (c # cs) = Some res" using Some Cons.prems by simp
    have c: "\<forall>i<length ([]::string). exec_at p (drop i (c # cs)) = None" by simp
    from a b c show ?thesis by blast
  next
    case None
    then have "exec p cs = Some res" using Cons.prems by simp
    from Cons.IH [OF this] obtain pre s' where ps: "cs = pre @ s'" "exec_at p s' = Some res"
        "\<forall>i<length pre. exec_at p (drop i cs) = None"
      by blast
    have e3: "\<forall>i<length (c # pre). exec_at p (drop i (c # cs)) = None"
    proof (intro allI impI)
      fix i assume i: "i < length (c # pre)"
      show "exec_at p (drop i (c # cs)) = None"
      proof (cases i)
        case 0
        then show ?thesis using None by simp
      next
        case (Suc j)
        then have "j < length pre" using i by simp
        then have "exec_at p (drop j cs) = None" using ps(3) by blast
        then show ?thesis using Suc by simp
      qed
    qed
    have e1: "c # cs = (c # pre) @ s'" using ps(1) by simp
    from e1 ps(2) e3 show ?thesis by blast
  qed
qed

text \<open>The first element of a global match is the match \<open>exec\<close> finds.\<close>

lemma match_all_None: "exec p s = None \<Longrightarrow> match_all p s = []"
  by (subst match_all.simps) simp

lemma match_all_Some: "exec p s = Some (m, caps, rest) \<Longrightarrow> \<exists>ms. match_all p s = m # ms"
  by (subst match_all.simps) simp

text \<open>The test on the lengths in \<open>match_all\<close> holds for every non-empty text.\<close>

lemma match_all_guard:
  assumes "exec p s = Some (m, caps, rest)" "s \<noteq> []"
  shows "length (if m = [] then drop 1 rest else rest) < length s"
proof -
  from exec_leftmost [OF assms(1)] obtain pre s' where ps: "s = pre @ s'"
      "exec_at p s' = Some (m, caps, rest)"
    by blast
  from exec_at_split [OF ps(2)] have "s' = m @ rest" by blast
  then have len: "length s = length pre + length m + length rest" using ps(1) by simp
  show ?thesis
  proof (cases "m = []")
    case True
    then show ?thesis using len assms(2) by (cases rest) auto
  next
    case False
    then have "0 < length m" by simp
    then show ?thesis using len False by simp
  qed
qed

section \<open>Range of the coordinates the interceptors store\<close>

lemma num_range_finite:
  "num_ge a (Fin lo) \<Longrightarrow> num_le a (Fin hi) \<Longrightarrow> \<exists>q. a = Fin q \<and> lo \<le> q \<and> q \<le> hi"
  by (cases a) (simp_all add: num_ge_def)

lemma fetch_inspect_cases:
  "fetch_inspect text cur = cur \<or>
   (\<exists>p q. fetch_inspect text cur = Some \<lparr>lat = Fin p, lng = Fin q, source = ''fetch''\<rparr>
      \<and> - 90 \<le> p \<and> p \<le> 90 \<and> - 180 \<le> q \<and> q \<le> 180)"
proof (cases "match_all coord_pattern text")
  case Nil
  then show ?thesis by (simp add: fetch_inspect_def)
next
  case (Cons m ms)
  show ?thesis
  proof (cases "parseCoordinates (Some m)")
    case None
    then show ?thesis using Cons by (simp add: fetch_inspect_def)
  next
    case (Some ab)
    obtain a b where ab: "ab = (a, b)" by (cases ab) auto
    show ?thesis
    proof (cases "num_ge a (Fin (- 90)) \<and> num_le a (Fin 90) \<and>
                  num_ge b (Fin (- 180)) \<and> num_le b (Fin 180)")
      case True
      then obtain p q where "a = Fin p" "- 90 \<le> p" "p \<le> 90" "b = Fin q" "- 180 \<le> q" "q \<le> 180"
        using num_range_finite [of a "- 90" 90] num_range_finite [of b "- 180" 180] by blast
      moreover have "fetch_inspect text cur = Some \<lparr>lat = a, lng = b, source = ''fetch''\<rparr>"
        using Cons Some ab True by (simp add: fetch_inspect_def)
      ultimately show ?thesis by blast
    next
      case False
      then have "fetch_inspect text cur = cur"
        using Cons Some ab by (auto simp: fetch_inspect_def)
      then show ?thesis by simp
    qed
  qed
qed

lemma xhr_inspect_cases:
  "xhr_inspect text cur = cur \<or>
   (\<exists>p b. xhr_inspect text cur = Some \<lparr>lat = Fin p, lng = b, source = ''xhr''\<rparr>
      \<and> - 90 \<le> p \<and> p \<le> 90)"
proof (cases "match_all coord_pattern text")
  case Nil
  then show ?thesis by (simp add: xhr_inspect_def)
next
  case (Cons m ms)
  show ?thesis
  proof (cases "parseCoordinates (Some m)")
    case None
    then show ?thesis using Cons by (simp add: xhr_inspect_def)
  next
    case (Some ab)
    obtain a b where ab: "ab = (a, b)" by (cases ab) auto
    show ?thesis
    proof (cases "num_ge a (Fin (- 90)) \<and> num_le a (Fin 90)")
      case True
      then obtain p where "a = Fin p" "- 90 \<le> p" "p \<le> 90"
        using num_range_finite [of a "- 90" 90] by blast
      moreover have "xhr_inspect text cur = Some \<lparr>lat = a, lng = b, source = ''xhr''\<rparr>"
        using Cons Some ab True by (simp add: xhr_inspect_def)
      ultimately show ?thesis by blast
    next
      case False
      then have "xhr_inspect text cur = cur"
        using Cons Some ab by (auto simp: xhr_inspect_def)
      then show ?thesis by simp
    qed
  qed
qed

text \<open>The cache after the \<open>try\<close> block of the wrapped fetch.\<close>

lemma fetch_try_cache:
  "fst (snd (fetch_try arg0 resp (cur, h))) = cur \<or>
   (\<exists>text. fst (snd (fetch_try arg0 resp (cur, h))) = fetch_inspect text cur)"
  by (auto simp: fetch_try_def Let_def split: prod.splits sum.splits)

lemma wrapped_fetch_cache:
  "fst (snd (wrapped_fetch arg0 original (cur, h))) = cur \<or>
   (\<exists>text. fst (snd (wrapped_fetch arg0 original (cur, h))) = fetch_inspect text cur)"
proof (cases original)
  case (Inl err)
  then show ?thesis by (simp add: wrapped_fetch_def)
next
  case (Inr resp)
  then show ?thesis using fetch_try_cache [of arg0 resp cur h] by (simp add: wrapped_fetch_def)
qed

lemma xhr_load_cache:
  "xhr_load url responseText cur = cur \<or> (\<exists>text. xhr_load url responseText cur = xhr_inspect text cur)"
  by (auto simp: xhr_load_def split: option.splits sum.splits)

text \<open>
  Claim C1, as the code has it. Whatever the wrapped fetch leaves in \<open>currentLocation\<close> is
  the value it found there or a coordinate tagged \<open>fetch\<close> with a finite latitude in
  [-90, 90] and a finite longitude in [-180, 180]; whatever the XHR load handler leaves
  there is the value it found or a coordinate tagged \<open>xhr\<close> with a finite latitude in
  [-90, 90].
\<close>

theorem C1_network_writes_in_range:
  "(fst (snd (wrapped_fetch arg0 original (cur, h))) = cur \<or>
    (\<exists>p q. fst (snd (wrapped_fetch arg0 original (cur, h)))
              = Some \<lparr>lat = Fin p, lng = Fin q, source = ''fetch''\<rparr>
       \<and> - 90 \<le> p \<and> p \<le> 90 \<and> - 180 \<le> q \<and> q \<le> 180))
   \<and> (xhr_load url responseText cur = cur \<or>
      (\<exists>p b. xhr_load url responseText cur = Some \<lparr>lat = Fin p, lng = b, source = ''xhr''\<rparr>
         \<and> - 90 \<le> p \<and> p \<le> 90))"
proof
  show "fst (snd (wrapped_fetch arg0 original (cur, h))) = cur \<or>
    (\<exists>p q. fst (snd (wrapped_fetch arg0 original (cur, h)))
              = Some \<lparr>lat = Fin p, lng = Fin q, source = ''fetch''\<rparr>
       \<and> - 90 \<le> p \<and> p \<le> 90 \<and> - 180 \<le> q \<and> q \<le> 180)"
    using wrapped_fetch_cache [of arg0 original cur h] fetch_inspect_cases [of _ cur] by metis
  show "xhr_load url responseText cur = cur \<or>
      (\<exists>p b. xhr_load url responseText cur = Some \<lparr>lat = Fin p, lng = b, source = ''xhr''\<rparr>
         \<and> - 90 \<le> p \<and> p \<le> 90)"
    using xhr_load_cache [of url responseText cur] xhr_inspect_cases [of _ cur] by metis
qed

text \<open>
  The iframe scan validates no range: a \<open>pb\<close> parameter \<open>!3d95.0!4d200.0\<close>, and a
  \<open>location\<close> parameter \<open>95,200\<close>, make \<open>getCurrentLocation\<close> store and return
  latitude 95 and longitude 200.
\<close>

theorem C1_counterexample:
  "getCurrentLocation
     [\<lparr>src_attr = ''https://www.google.com/maps/embed?pb=!3d95.0!4d200.0'',
       new_URL = Inr [(''pb'', ''!3d95.0!4d200.0'')]\<rparr>] None
   = Inr (Some \<lparr>lat = Fin 95, lng = Fin 200, source = ''iframe-pb''\<rparr>,
          Some \<lparr>lat = Fin 95, lng = Fin 200, source = ''iframe-pb''\<rparr>)
   \<and> getCurrentLocation
     [\<lparr>src_attr = ''https://www.google.com/maps/embed?location=95,200'',
       new_URL = Inr [(''location'', ''95,200'')]\<rparr>] None
   = Inr (Some \<lparr>lat = Fin 95, lng = Fin 200, source = ''iframe-location''\<rparr>,
          Some \<lparr>lat = Fin 95, lng = Fin 200, source = ''iframe-location''\<rparr>)
   \<and> \<not> num_le (Fin 95) (Fin 90) \<and> \<not> num_le (Fin 200) (Fin 180)"
  by code_simp

text \<open>
  A \<open>pb\<close> parameter whose captured texts hold no digit matches the expression all the
  same, and the scan yields a coordinate of two NaN.
\<close>

lemma pb_match_not_a_number:
  "pb_match ''!3d.!4d.'' = Some \<lparr>lat = NaN, lng = NaN, source = ''iframe-pb''\<rparr>"
  by code_simp

text \<open>
  Claim C2 at the body \<open>10.5,200.5\<close>: the XHR load handler stores the pair, whose
  longitude is above 180, while the wrapped fetch leaves the cache empty on the same body.
\<close>

theorem C2_xhr_stores_longitude_out_of_range:
  "xhr_load (Some ''/api/location'') (Inr ''10.5,200.5'') None
     = Some \<lparr>lat = Fin (21 / 2), lng = Fin (401 / 2), source = ''xhr''\<rparr>
   \<and> \<not> num_le (Fin (401 / 2)) (Fin 180)
   \<and> fst (snd (wrapped_fetch (Some ''/api/location'') (Inr 0)
         (None, [\<lparr>body = Inr ''10.5,200.5'', bodyUsed = False\<rparr>]))) = None"
  by code_simp

section \<open>The iframe scan and \<open>getCurrentLocation\<close>\<close>

lemma scan_loop_not_Inl: "scan_loop fs \<noteq> Inl err"
  by (induction fs) (auto split: sum.splits option.splits)

lemma scan_loop_None_iff:
  "scan_loop fs = Inr None \<longleftrightarrow> (\<forall>f\<in>set fs. \<forall>c. scan_iframe f \<noteq> Inr (Some c))"
  by (induction fs) (auto split: sum.splits option.splits)

lemma scan_loop_skip:
  "\<forall>g\<in>set pre. \<forall>c'. scan_iframe g \<noteq> Inr (Some c') \<Longrightarrow> scan_loop (pre @ fs) = scan_loop fs"
  by (induction pre) (auto split: sum.splits option.splits)

lemma scan_loop_Some_iff:
  "scan_loop fs = Inr (Some c) \<longleftrightarrow>
     (\<exists>pre f post. fs = pre @ f # post \<and> (\<forall>g\<in>set pre. \<forall>c'. scan_iframe g \<noteq> Inr (Some c'))
        \<and> scan_iframe f = Inr (Some c))"
proof
  show "scan_loop fs = Inr (Some c) \<Longrightarrow>
     \<exists>pre f post. fs = pre @ f # post \<and> (\<forall>g\<in>set pre. \<forall>c'. scan_iframe g \<noteq> Inr (Some c'))
        \<and> scan_iframe f = Inr (Some c)"
  proof (induction fs)
    case Nil
    then show ?case by simp
  next
    case (Cons x xs)
    show ?case
    proof (cases "\<exists>c'. scan_iframe x = Inr (Some c')")
      case True
      then have "scan_iframe x = Inr (Some c)" using Cons.prems by auto
      then have "x # xs = [] @ x # xs \<and> (\<forall>g\<in>set []. \<forall>c'. scan_iframe g \<noteq> Inr (Some c'))
          \<and> scan_iframe x = Inr (Some c)"
        by simp
      then show ?thesis by blast
    next
      case False
      then have "scan_loop xs = Inr (Some c)"
        using Cons.prems by (auto split: sum.splits option.splits)
      from Cons.IH [OF this] obtain pre f post where p: "xs = pre @ f # post"
          "\<forall>g\<in>set pre. \<forall>c'. scan_iframe g \<noteq> Inr (Some c')" "scan_iframe f = Inr (Some c)"
        by blast
      have "x # xs = (x # pre) @ f # post" using p(1) by simp
      moreover have "\<forall>g\<in>set (x # pre). \<forall>c'. scan_iframe g \<noteq> Inr (Some c')"
        using False p(2) by simp
      ultimately show ?thesis using p(3) by blast
    qed
  qed
next
  assume "\<exists>pre f post. fs = pre @ f # post \<and> (\<forall>g\<in>set pre. \<forall>c'. scan_iframe g \<noteq> Inr (Some c'))
        \<and> scan_iframe f = Inr (Some c)"
  then obtain pre f post where p: "fs = pre @ f # post"
      "\<forall>g\<in>set pre. \<forall>c'. scan_iframe g \<noteq> Inr (Some c')" "scan_iframe f = Inr (Some c)"
    by blast
  have "scan_loop fs = scan_loop (f # post)" using p(1) scan_loop_skip [OF p(2)] by simp
  then show "scan_loop fs = Inr (Some c)" using p(3) by simp
qed

lemma extractFromIframe_scan_loop: "extractFromIframe doc = scan_loop (querySelectorAll doc)"
proof (cases "scan_loop (querySelectorAll doc)")
  case (Inl err)
  then show ?thesis using scan_loop_not_Inl [of "querySelectorAll doc" err] by simp
next
  case (Inr r)
  then show ?thesis by (simp add: extractFromIframe_def)
qed

lemma scan_iframe_pb_first:
  "new_URL f = Inr ps \<Longrightarrow> searchParams_get ps ''pb'' = Some pb \<Longrightarrow> pb_match pb = Some c
     \<Longrightarrow> scan_iframe f = Inr (Some c)"
  by (simp add: scan_iframe_def searchParams_has_def searchParams_get_def)

lemma scan_iframe_location_second:
  "new_URL f = Inr ps \<Longrightarrow>
   searchParams_get ps ''pb'' = None \<or> (\<exists>pb. searchParams_get ps ''pb'' = Some pb \<and> pb_match pb = None)
     \<Longrightarrow> scan_iframe f =
        (case parseCoordinates (searchParams_get ps ''location'') of
           Some (a, b) \<Rightarrow> Inr (Some \<lparr>lat = a, lng = b, source = ''iframe-location''\<rparr>)
         | None \<Rightarrow> Inr None)"
  by (auto simp: scan_iframe_def searchParams_has_def searchParams_get_def parseCoordinates_def
      split: option.splits)

text \<open>
  Claim C3. \<open>getCurrentLocation\<close> runs the iframe scan first. When the scan yields a
  coordinate, that coordinate becomes \<open>currentLocation\<close>, whatever was cached, and is
  returned; when the scan yields \<open>null\<close>, the cached value is returned and stays.
\<close>

theorem C3_getCurrentLocation_scan_then_cache:
  "(extractFromIframe doc = Inr (Some c) \<longrightarrow> getCurrentLocation doc cur = Inr (Some c, Some c))
   \<and> (extractFromIframe doc = Inr None \<longrightarrow> getCurrentLocation doc cur = Inr (cur, cur))"
  by (simp add: getCurrentLocation_def)

text \<open>
  A scan that succeeds over a cached network value, and the empty document with the cached
  value of latitude 40 and longitude -75.
\<close>

theorem C3_witness:
  "extractFromIframe
     [\<lparr>src_attr = ''https://www.google.com/maps/embed?pb=!3d40.5!4d-75.25'',
       new_URL = Inr [(''pb'', ''!3d40.5!4d-75.25'')]\<rparr>]
     = Inr (Some \<lparr>lat = Fin (81 / 2), lng = Fin (- (301 / 4)), source = ''iframe-pb''\<rparr>)
   \<and> getCurrentLocation
       [\<lparr>src_attr = ''https://www.google.com/maps/embed?pb=!3d40.5!4d-75.25'',
         new_URL = Inr [(''pb'', ''!3d40.5!4d-75.25'')]\<rparr>]
       (Some \<lparr>lat = Fin 10, lng = Fin 20, source = ''fetch''\<rparr>)
     = Inr (Some \<lparr>lat = Fin (81 / 2), lng = Fin (- (301 / 4)), source = ''iframe-pb''\<rparr>,
            Some \<lparr>lat = Fin (81 / 2), lng = Fin (- (301 / 4)), source = ''iframe-pb''\<rparr>)
   \<and> extractFromIframe [] = Inr None
   \<and> getCurrentLocation [] (Some \<lparr>lat = Fin 40, lng = Fin (- 75), source = ''iframe-pb''\<rparr>)
     = Inr (Some \<lparr>lat = Fin 40, lng = Fin (- 75), source = ''iframe-pb''\<rparr>,
            Some \<lparr>lat = Fin 40, lng = Fin (- 75), source = ''iframe-pb''\<rparr>)"
proof -
  have h1: "extractFromIframe
     [\<lparr>src_attr = ''https://www.google.com/maps/embed?pb=!3d40.5!4d-75.25'',
       new_URL = Inr [(''pb'', ''!3d40.5!4d-75.25'')]\<rparr>]
     = Inr (Some \<lparr>lat = Fin (81 / 2), lng = Fin (- (301 / 4)), source = ''iframe-pb''\<rparr>)"
    by code_simp
  have h2: "extractFromIframe [] = Inr None"
    by code_simp
  show ?thesis
    using h1 h2
      C3_getCurrentLocation_scan_then_cache [THEN conjunct1, rule_format, OF h1]
      C3_getCurrentLocation_scan_then_cache [THEN conjunct2, rule_format, OF h2]
    by simp
qed

text \<open>
  Claim C5. The wrapped fetch gives its caller the outcome of the original fetch, for every
  first argument, store and outcome (unreadable bodies and bodies already read included),
  and every response object that was in the store is unchanged afterwards: the inspection
  works on the clone, which is a new object.
\<close>

theorem C5_wrapped_fetch_passes_response:
  "fst (wrapped_fetch arg0 original (cur, h)) = original
   \<and> take (length h) (snd (snd (wrapped_fetch arg0 original (cur, h)))) = h"
  by (auto simp: wrapped_fetch_def fetch_try_def clone_def response_text_def Let_def
      split: sum.splits prod.splits if_splits)


text \<open>
  Claim C4. The scan goes through the iframes the selector matches, in document order. It
  returns \<open>null\<close> exactly when no iframe yields a coordinate, and otherwise the
  coordinate of the first iframe that yields one, skipping those before it. For one iframe
  the \<open>pb\<close> matcher comes first, and the \<open>location\<close> matcher is tried only when
  \<open>pb\<close> is absent or does not match. With one iframe that yields nothing and one that
  yields a coordinate, the result is that coordinate in both orders.
\<close>

theorem C4_scan_first_success:
  "(extractFromIframe doc = Inr None \<longleftrightarrow>
      (\<forall>f\<in>set (querySelectorAll doc). \<forall>c. scan_iframe f \<noteq> Inr (Some c)))
   \<and> (extractFromIframe doc = Inr (Some c) \<longleftrightarrow>
      (\<exists>pre f post. querySelectorAll doc = pre @ f # post
         \<and> (\<forall>g\<in>set pre. \<forall>c'. scan_iframe g \<noteq> Inr (Some c'))
         \<and> scan_iframe f = Inr (Some c)))
   \<and> (new_URL e = Inr ps \<and> searchParams_get ps ''pb'' = Some pb \<and> pb_match pb = Some c1
        \<longrightarrow> scan_iframe e = Inr (Some c1))
   \<and> (new_URL e = Inr ps
        \<and> (searchParams_get ps ''pb'' = None
            \<or> (\<exists>pb. searchParams_get ps ''pb'' = Some pb \<and> pb_match pb = None))
        \<longrightarrow> scan_iframe e =
             (case parseCoordinates (searchParams_get ps ''location'') of
                Some (a, b) \<Rightarrow> Inr (Some \<lparr>lat = a, lng = b, source = ''iframe-location''\<rparr>)
              | None \<Rightarrow> Inr None))
   \<and> (querySelectorAll [f1, f2] = [f1, f2] \<and> (\<forall>c'. scan_iframe f1 \<noteq> Inr (Some c'))
        \<and> scan_iframe f2 = Inr (Some c2)
        \<longrightarrow> extractFromIframe [f1, f2] = Inr (Some c2) \<and> extractFromIframe [f2, f1] = Inr (Some c2))"
proof (intro conjI)
  show "extractFromIframe doc = Inr None \<longleftrightarrow>
      (\<forall>f\<in>set (querySelectorAll doc). \<forall>c. scan_iframe f \<noteq> Inr (Some c))"
    by (simp only: extractFromIframe_scan_loop scan_loop_None_iff)
  show "extractFromIframe doc = Inr (Some c) \<longleftrightarrow>
      (\<exists>pre f post. querySelectorAll doc = pre @ f # post
         \<and> (\<forall>g\<in>set pre. \<forall>c'. scan_iframe g \<noteq> Inr (Some c'))
         \<and> scan_iframe f = Inr (Some c))"
    by (simp only: extractFromIframe_scan_loop scan_loop_Some_iff)
  show "new_URL e = Inr ps \<and> searchParams_get ps ''pb'' = Some pb \<and> pb_match pb = Some c1
        \<longrightarrow> scan_iframe e = Inr (Some c1)"
    using scan_iframe_pb_first by blast
  show "new_URL e = Inr ps
        \<and> (searchParams_get ps ''pb'' = None
            \<or> (\<exists>pb. searchParams_get ps ''pb'' = Some pb \<and> pb_match pb = None))
        \<longrightarrow> scan_iframe e =
             (case parseCoordinates (searchParams_get ps ''location'') of
                Some (a, b) \<Rightarrow> Inr (Some \<lparr>lat = a, lng = b, source = ''iframe-location''\<rparr>)
              | None \<Rightarrow> Inr None)"
    using scan_iframe_location_second [of e ps] by blast
  show "querySelectorAll [f1, f2] = [f1, f2] \<and> (\<forall>c'. scan_iframe f1 \<noteq> Inr (Some c'))
        \<and> scan_iframe f2 = Inr (Some c2)
        \<longrightarrow> extractFromIframe [f1, f2] = Inr (Some c2) \<and> extractFromIframe [f2, f1] = Inr (Some c2)"
  proof
    assume a: "querySelectorAll [f1, f2] = [f1, f2] \<and> (\<forall>c'. scan_iframe f1 \<noteq> Inr (Some c'))
        \<and> scan_iframe f2 = Inr (Some c2)"
    then have q: "querySelectorAll [f2, f1] = [f2, f1]"
      by (auto simp: querySelectorAll_def split: if_splits)
    have "scan_loop [f1, f2] = Inr (Some c2)"
      using a by (auto split: sum.splits option.splits)
    moreover have "scan_loop [f2, f1] = Inr (Some c2)"
      using a by simp
    ultimately show "extractFromIframe [f1, f2] = Inr (Some c2) \<and> extractFromIframe [f2, f1] = Inr (Some c2)"
      using a q by (simp add: extractFromIframe_scan_loop)
  qed
qed

text \<open>An iframe without coordinates and one with a \<open>pb\<close> parameter, in both orders.\<close>

theorem C4_witness:
  "extractFromIframe
     [\<lparr>src_attr = ''https://www.google.com/maps/embed?q=x'', new_URL = Inr [(''q'', ''x'')]\<rparr>,
      \<lparr>src_attr = ''https://www.google.com/maps/embed?pb=!3d40.5!4d-75.25'',
       new_URL = Inr [(''pb'', ''!3d40.5!4d-75.25'')]\<rparr>]
     = Inr (Some \<lparr>lat = Fin (81 / 2), lng = Fin (- (301 / 4)), source = ''iframe-pb''\<rparr>)
   \<and> extractFromIframe
     [\<lparr>src_attr = ''https://www.google.com/maps/embed?pb=!3d40.5!4d-75.25'',
       new_URL = Inr [(''pb'', ''!3d40.5!4d-75.25'')]\<rparr>,
      \<lparr>src_attr = ''https://www.google.com/maps/embed?q=x'', new_URL = Inr [(''q'', ''x'')]\<rparr>]
     = Inr (Some \<lparr>lat = Fin (81 / 2), lng = Fin (- (301 / 4)), source = ''iframe-pb''\<rparr>)"
proof -
  let ?f1 = "\<lparr>src_attr = ''https://www.google.com/maps/embed?q=x'', new_URL = Inr [(''q'', ''x'')]\<rparr>"
  let ?f2 = "\<lparr>src_attr = ''https://www.google.com/maps/embed?pb=!3d40.5!4d-75.25'',
       new_URL = Inr [(''pb'', ''!3d40.5!4d-75.25'')]\<rparr>"
  let ?c = "\<lparr>lat = Fin (81 / 2), lng = Fin (- (301 / 4)), source = ''iframe-pb''\<rparr>"
  have h1: "querySelectorAll [?f1, ?f2] = [?f1, ?f2]"
    by code_simp
  have h2: "scan_iframe ?f1 = Inr None"
    by code_simp
  have h3: "scan_iframe ?f2 = Inr (Some ?c)"
    by code_simp
  have h: "querySelectorAll [?f1, ?f2] = [?f1, ?f2] \<and> (\<forall>c'. scan_iframe ?f1 \<noteq> Inr (Some c'))
        \<and> scan_iframe ?f2 = Inr (Some ?c)"
    using h1 h2 h3 by simp
  show ?thesis
    using C4_scan_first_success [THEN conjunct2, THEN conjunct2, THEN conjunct2, THEN conjunct2,
        rule_format, OF h]
    by simp
qed

text \<open>
  Claim C8, as the code has it. \<open>getCurrentLocation\<close>, the iframe scan and the mutation
  callback never end in an error, also when \<open>new URL\<close> throws for an iframe; when no
  iframe yields a coordinate and nothing is cached, \<open>getCurrentLocation\<close> returns
  \<open>null\<close>. \<open>parseCoordinates\<close> and the \<open>pb\<close> matcher return a pair or \<open>null\<close> on
  every input. An unreadable \<open>responseText\<close> leaves the cache as it is, the wrapped fetch
  raises nothing of its own, and a first pair out of range in a body leaves the cache of
  the wrapped fetch as it is.
\<close>

theorem C8_no_operation_raises:
  "(\<exists>r. getCurrentLocation doc cur = Inr r)
   \<and> (\<exists>r. extractFromIframe doc = Inr r)
   \<and> (\<exists>r. monitorDOM_added doc cur = Inr r)
   \<and> ((\<forall>f\<in>set (querySelectorAll doc). \<forall>c. scan_iframe f \<noteq> Inr (Some c))
        \<longrightarrow> getCurrentLocation doc None = Inr (None, None))
   \<and> (parseCoordinates x = None \<or> (\<exists>a b. parseCoordinates x = Some (a, b)))
   \<and> (pb_match pb = None \<or> (\<exists>c. pb_match pb = Some c))
   \<and> xhr_load url (Inl err) cur = cur
   \<and> (\<exists>r. fst (wrapped_fetch arg0 (Inr resp) (cur, h)) = Inr r)
   \<and> (match_all coord_pattern txt = m # ms \<and> parseCoordinates (Some m) = Some (lt, lg)
        \<and> (\<not> num_ge lt (Fin (- 90)) \<or> \<not> num_le lt (Fin 90)
             \<or> \<not> num_ge lg (Fin (- 180)) \<or> \<not> num_le lg (Fin 180))
        \<longrightarrow> fetch_inspect txt cur = cur)"
proof (intro conjI)
  obtain r where r: "extractFromIframe doc = Inr r"
    using scan_loop_not_Inl [of "querySelectorAll doc"]
    by (cases "scan_loop (querySelectorAll doc)") (auto simp: extractFromIframe_scan_loop)
  show "\<exists>r. extractFromIframe doc = Inr r" using r by blast
  show "\<exists>r. getCurrentLocation doc cur = Inr r"
    using r by (cases r) (simp_all add: getCurrentLocation_def)
  show "\<exists>r. monitorDOM_added doc cur = Inr r"
    using r by (cases r) (simp_all add: monitorDOM_added_def)
  show "(\<forall>f\<in>set (querySelectorAll doc). \<forall>c. scan_iframe f \<noteq> Inr (Some c))
        \<longrightarrow> getCurrentLocation doc None = Inr (None, None)"
    by (simp add: getCurrentLocation_def extractFromIframe_scan_loop scan_loop_None_iff [symmetric])
  show "parseCoordinates x = None \<or> (\<exists>a b. parseCoordinates x = Some (a, b))"
    by (cases "parseCoordinates x") auto
  show "pb_match pb = None \<or> (\<exists>c. pb_match pb = Some c)"
    by (cases "pb_match pb") auto
  show "xhr_load url (Inl err) cur = cur"
    by (simp add: xhr_load_def split: option.splits)
  show "\<exists>r. fst (wrapped_fetch arg0 (Inr resp) (cur, h)) = Inr r"
    by (simp add: wrapped_fetch_def)
  show "match_all coord_pattern txt = m # ms \<and> parseCoordinates (Some m) = Some (lt, lg)
        \<and> (\<not> num_ge lt (Fin (- 90)) \<or> \<not> num_le lt (Fin 90)
             \<or> \<not> num_ge lg (Fin (- 180)) \<or> \<not> num_le lg (Fin 180))
        \<longrightarrow> fetch_inspect txt cur = cur"
    by (auto simp: fetch_inspect_def)
qed

text \<open>
  A document whose only map iframe makes \<open>new URL\<close> throw, and the body \<open>95.5,10.5\<close>.
\<close>

theorem C8_witness:
  "querySelectorAll [\<lparr>src_attr = ''https://www.google.com/maps/embed'', new_URL = Inl TypeError\<rparr>]
     = [\<lparr>src_attr = ''https://www.google.com/maps/embed'', new_URL = Inl TypeError\<rparr>]
   \<and> scan_iframe \<lparr>src_attr = ''https://www.google.com/maps/embed'', new_URL = Inl TypeError\<rparr>
     = Inl TypeError
   \<and> getCurrentLocation
       [\<lparr>src_attr = ''https://www.google.com/maps/embed'', new_URL = Inl TypeError\<rparr>] None
     = Inr (None, None)
   \<and> match_all coord_pattern ''95.5,10.5'' = [''95.5,10.5'']
   \<and> parseCoordinates (Some ''95.5,10.5'') = Some (Fin (191 / 2), Fin (21 / 2))
   \<and> \<not> num_le (Fin (191 / 2)) (Fin 90)
   \<and> fetch_inspect ''95.5,10.5'' None = None"
proof -
  let ?f = "\<lparr>src_attr = ''https://www.google.com/maps/embed'', new_URL = Inl TypeError\<rparr>"
  have h1: "querySelectorAll [?f] = [?f]"
    by code_simp
  have h2: "scan_iframe ?f = Inl TypeError"
    by code_simp
  have h: "\<forall>f\<in>set (querySelectorAll [?f]). \<forall>c. scan_iframe f \<noteq> Inr (Some c)"
    using h1 h2 by simp
  have g1: "match_all coord_pattern ''95.5,10.5'' = [''95.5,10.5'']"
    by code_simp
  have g2: "parseCoordinates (Some ''95.5,10.5'') = Some (Fin (191 / 2), Fin (21 / 2))"
    by code_simp
  have g3: "\<not> num_le (Fin (191 / 2)) (Fin 90)"
    by simp
  have g: "match_all coord_pattern ''95.5,10.5'' = [''95.5,10.5'']
        \<and> parseCoordinates (Some ''95.5,10.5'') = Some (Fin (191 / 2), Fin (21 / 2))
        \<and> (\<not> num_ge (Fin (191 / 2)) (Fin (- 90)) \<or> \<not> num_le (Fin (191 / 2)) (Fin 90)
             \<or> \<not> num_ge (Fin (21 / 2)) (Fin (- 180)) \<or> \<not> num_le (Fin (21 / 2)) (Fin 180))"
    using g1 g2 g3 by simp
  show ?thesis
    using h1 h2 g1 g2 g3
      C8_no_operation_raises [THEN conjunct2, THEN conjunct2, THEN conjunct2, THEN conjunct1,
        THEN mp, OF h]
      C8_no_operation_raises [THEN conjunct2, THEN conjunct2, THEN conjunct2, THEN conjunct2,
        THEN conjunct2, THEN conjunct2, THEN conjunct2, THEN conjunct2, THEN mp, OF g, of None]
    by simp
qed

text \<open>
  The iframe scan does not know a range violation: a \<open>location\<close> parameter \<open>91.5,0\<close>
  makes \<open>getCurrentLocation\<close> return latitude 91.5, not \<open>null\<close>.
\<close>

theorem C8_counterexample:
  "getCurrentLocation
     [\<lparr>src_attr = ''https://www.google.com/maps/embed?location=91.5,0'',
       new_URL = Inr [(''location'', ''91.5,0'')]\<rparr>] None
   = Inr (Some \<lparr>lat = Fin (183 / 2), lng = Fin 0, source = ''iframe-location''\<rparr>,
          Some \<lparr>lat = Fin (183 / 2), lng = Fin 0, source = ''iframe-location''\<rparr>)
   \<and> \<not> num_le (Fin (183 / 2)) (Fin 90)"
  by code_simp

section \<open>What the coordinate expression matches\<close>

text \<open>
  A text the ten items of the coordinate expression consume is two numbers, each an
  optional minus sign, digits, a point and digits, with a comma and white space between.
\<close>

lemma coord_items_shape:
  assumes "list_all2 item_lang
     [Opt CHR ''-'', Plus Digit, Ch CHR ''.'', Plus Digit, Ch CHR '','', Star Space,
      Opt CHR ''-'', Plus Digit, Ch CHR ''.'', Plus Digit] ms"
  shows "\<exists>sg1 i1 f1 w sg2 i2 f2.
      concat ms = sg1 @ i1 @ ''.'' @ f1 @ '','' @ w @ sg2 @ i2 @ ''.'' @ f2
      \<and> (sg1 = [] \<or> sg1 = ''-'') \<and> i1 \<noteq> [] \<and> list_all is_digit i1
      \<and> f1 \<noteq> [] \<and> list_all is_digit f1 \<and> list_all is_ws w
      \<and> (sg2 = [] \<or> sg2 = ''-'') \<and> i2 \<noteq> [] \<and> list_all is_digit i2
      \<and> f2 \<noteq> [] \<and> list_all is_digit f2"
proof -
  from assms obtain sg1 i1 d1 f1 c w sg2 i2 d2 f2 where ms: "ms = [sg1, i1, d1, f1, c, w, sg2, i2, d2, f2]"
    and l: "item_lang (Opt CHR ''-'') sg1" "item_lang (Plus Digit) i1" "item_lang (Ch CHR ''.'') d1"
      "item_lang (Plus Digit) f1" "item_lang (Ch CHR '','') c" "item_lang (Star Space) w"
      "item_lang (Opt CHR ''-'') sg2" "item_lang (Plus Digit) i2" "item_lang (Ch CHR ''.'') d2"
      "item_lang (Plus Digit) f2"
    by (auto simp: list_all2_Cons1)
  have in_digit: "in_cls Digit = is_digit" and in_space: "in_cls Space = is_ws"
    by (simp_all add: fun_eq_iff)
  have "concat ms = sg1 @ i1 @ ''.'' @ f1 @ '','' @ w @ sg2 @ i2 @ ''.'' @ f2"
    using ms l by simp
  moreover have "(sg1 = [] \<or> sg1 = ''-'') \<and> i1 \<noteq> [] \<and> list_all is_digit i1
      \<and> f1 \<noteq> [] \<and> list_all is_digit f1 \<and> list_all is_ws w
      \<and> (sg2 = [] \<or> sg2 = ''-'') \<and> i2 \<noteq> [] \<and> list_all is_digit i2
      \<and> f2 \<noteq> [] \<and> list_all is_digit f2"
    using l by (simp add: in_digit in_space)
  ultimately show ?thesis by blast
qed

lemma parts_run_plain: "parts_run [Plain items] s = map (\<lambda>r. ([], r)) (run items s)"
proof -
  have "concat (map (parts_run []) xs) = map (Pair []) xs" for xs
    by (induction xs) simp_all
  then show ?thesis by simp
qed

lemma exec_at_coord_run:
  assumes "exec_at coord_pattern s = Some (m, caps, r)"
  shows "s = m @ r \<and> r \<in> set (run
       [Opt CHR ''-'', Plus Digit, Ch CHR ''.'', Plus Digit, Ch CHR '','', Star Space,
        Opt CHR ''-'', Plus Digit, Ch CHR ''.'', Plus Digit] s)"
proof -
  from exec_at_split [OF assms] have s: "s = m @ r"
    by blast
  from exec_at_split [OF assms] have "(caps, r) \<in> set (parts_run coord_pattern s)"
    by blast
  then have "r \<in> set (run
       [Opt CHR ''-'', Plus Digit, Ch CHR ''.'', Plus Digit, Ch CHR '','', Star Space,
        Opt CHR ''-'', Plus Digit, Ch CHR ''.'', Plus Digit] s)"
    unfolding coord_pattern_def parts_run_plain by (simp only: set_map) blast
  with s show ?thesis by blast
qed

lemma exec_coord_shape:
  assumes "exec coord_pattern text = Some (m, caps, rest)"
  shows "\<exists>pre sg1 i1 f1 w sg2 i2 f2.
      text = pre @ m @ rest
      \<and> m = sg1 @ i1 @ ''.'' @ f1 @ '','' @ w @ sg2 @ i2 @ ''.'' @ f2
      \<and> (sg1 = [] \<or> sg1 = ''-'') \<and> i1 \<noteq> [] \<and> list_all is_digit i1
      \<and> f1 \<noteq> [] \<and> list_all is_digit f1 \<and> list_all is_ws w
      \<and> (sg2 = [] \<or> sg2 = ''-'') \<and> i2 \<noteq> [] \<and> list_all is_digit i2
      \<and> f2 \<noteq> [] \<and> list_all is_digit f2"
proof -
  from exec_leftmost [OF assms] obtain pre s' where ps: "text = pre @ s'"
      "exec_at coord_pattern s' = Some (m, caps, rest)"
    by blast
  from exec_at_coord_run [OF ps(2)] have s': "s' = m @ rest"
    by blast
  from exec_at_coord_run [OF ps(2)] have r: "rest \<in> set (run
       [Opt CHR ''-'', Plus Digit, Ch CHR ''.'', Plus Digit, Ch CHR '','', Star Space,
        Opt CHR ''-'', Plus Digit, Ch CHR ''.'', Plus Digit] s')"
    by blast
  from run_lang [OF r] obtain ms where ms: "s' = concat ms @ rest" "list_all2 item_lang
       [Opt CHR ''-'', Plus Digit, Ch CHR ''.'', Plus Digit, Ch CHR '','', Star Space,
        Opt CHR ''-'', Plus Digit, Ch CHR ''.'', Plus Digit] ms"
    by blast
  have m: "m = concat ms" using s' ms(1) by simp
  have t: "text = pre @ m @ rest" using ps(1) s' by simp
  from coord_items_shape [OF ms(2)] t show ?thesis unfolding m [symmetric] by blast
qed

lemma exec_coord_no_dot:
  assumes "CHR ''.'' \<notin> set text"
  shows "exec coord_pattern text = None"
proof (cases "exec coord_pattern text")
  case None
  then show ?thesis .
next
  case (Some res)
  obtain m caps rest where "res = (m, caps, rest)" by (cases res) auto
  with Some have "exec coord_pattern text = Some (m, caps, rest)" by simp
  from exec_coord_shape [OF this] obtain pre sg1 i1 f1 w sg2 i2 f2 where
    "text = pre @ m @ rest" "m = sg1 @ i1 @ ''.'' @ f1 @ '','' @ w @ sg2 @ i2 @ ''.'' @ f2"
    by blast
  then have "CHR ''.'' \<in> set text" by simp
  with assms show ?thesis by simp
qed

lemma fetch_inspect_no_match: "exec coord_pattern text = None \<Longrightarrow> fetch_inspect text cur = cur"
  by (simp add: fetch_inspect_def match_all_None)

lemma xhr_inspect_no_match: "exec coord_pattern text = None \<Longrightarrow> xhr_inspect text cur = cur"
  by (simp add: xhr_inspect_def match_all_None)

lemma wrapped_fetch_reads_body:
  "fst (snd (wrapped_fetch arg0 (Inr resp) (cur, h))) = cur \<or>
   (\<exists>text. body (h ! resp) = Inr text
      \<and> fst (snd (wrapped_fetch arg0 (Inr resp) (cur, h))) = fetch_inspect text cur)"
  by (auto simp: wrapped_fetch_def fetch_try_def clone_def response_text_def Let_def nth_append
      split: sum.splits prod.splits if_splits)

text \<open>
  Claim C10. Every match of the coordinate expression in a body is a pair of numbers that
  each hold a decimal point between digits. So on a body without a point (a pair written
  as \<open>37,-122\<close>) neither the XHR load handler nor the wrapped fetch changes
  \<open>currentLocation\<close>.
\<close>

theorem C10_only_decimal_point_pairs:
  "(match_all coord_pattern text = m # ms \<longrightarrow>
      (\<exists>pre rest sg1 i1 f1 w sg2 i2 f2.
         text = pre @ m @ rest
         \<and> m = sg1 @ i1 @ ''.'' @ f1 @ '','' @ w @ sg2 @ i2 @ ''.'' @ f2
         \<and> (sg1 = [] \<or> sg1 = ''-'') \<and> i1 \<noteq> [] \<and> list_all is_digit i1
         \<and> f1 \<noteq> [] \<and> list_all is_digit f1 \<and> list_all is_ws w
         \<and> (sg2 = [] \<or> sg2 = ''-'') \<and> i2 \<noteq> [] \<and> list_all is_digit i2
         \<and> f2 \<noteq> [] \<and> list_all is_digit f2))
   \<and> (CHR ''.'' \<notin> set text \<longrightarrow> xhr_load url (Inr text) cur = cur)
   \<and> (body (h ! resp) = Inr text \<and> CHR ''.'' \<notin> set text \<longrightarrow>
        fst (snd (wrapped_fetch arg0 (Inr resp) (cur, h))) = cur)"
proof (intro conjI impI)
  assume a: "match_all coord_pattern text = m # ms"
  then obtain caps rest where "exec coord_pattern text = Some (m, caps, rest)"
    using match_all_None [of coord_pattern "text"] match_all_Some [of coord_pattern "text"]
    by (cases "exec coord_pattern text") auto
  from exec_coord_shape [OF this]
  show "\<exists>pre rest sg1 i1 f1 w sg2 i2 f2.
         text = pre @ m @ rest
         \<and> m = sg1 @ i1 @ ''.'' @ f1 @ '','' @ w @ sg2 @ i2 @ ''.'' @ f2
         \<and> (sg1 = [] \<or> sg1 = ''-'') \<and> i1 \<noteq> [] \<and> list_all is_digit i1
         \<and> f1 \<noteq> [] \<and> list_all is_digit f1 \<and> list_all is_ws w
         \<and> (sg2 = [] \<or> sg2 = ''-'') \<and> i2 \<noteq> [] \<and> list_all is_digit i2
         \<and> f2 \<noteq> [] \<and> list_all is_digit f2"
    by blast
next
  assume "CHR ''.'' \<notin> set text"
  then have "xhr_inspect text cur = cur"
    using exec_coord_no_dot xhr_inspect_no_match by simp
  then show "xhr_load url (Inr text) cur = cur"
    by (simp add: xhr_load_def split: option.splits)
next
  assume a: "body (h ! resp) = Inr text \<and> CHR ''.'' \<notin> set text"
  then have "fetch_inspect text cur = cur"
    using exec_coord_no_dot fetch_inspect_no_match by simp
  then show "fst (snd (wrapped_fetch arg0 (Inr resp) (cur, h))) = cur"
    using a wrapped_fetch_reads_body [of arg0 resp cur h] by auto
qed

text \<open>A body with a pair in decimal notation, and the body \<open>37,-122\<close> in both interceptors.\<close>

theorem C10_witness:
  "match_all coord_pattern ''x 1.5, -2.25 y'' = [''1.5, -2.25'']
   \<and> CHR ''.'' \<notin> set ''37,-122''
   \<and> xhr_load (Some ''/api/location'') (Inr ''37,-122'') None = None
   \<and> body ([\<lparr>body = Inr ''37,-122'', bodyUsed = False\<rparr>] ! 0) = Inr ''37,-122''
   \<and> fst (snd (wrapped_fetch (Some ''/api/location'') (Inr 0)
        (None, [\<lparr>body = Inr ''37,-122'', bodyUsed = False\<rparr>]))) = None"
proof -
  have h1: "CHR ''.'' \<notin> set ''37,-122''" by simp
  have h2: "body ([\<lparr>body = Inr ''37,-122'', bodyUsed = False\<rparr>] ! 0) = Inr ''37,-122''
      \<and> CHR ''.'' \<notin> set ''37,-122''"
    by simp
  have h3: "match_all coord_pattern ''x 1.5, -2.25 y'' = [''1.5, -2.25'']"
    by code_simp
  show ?thesis
    using h1 h2 h3
      C10_only_decimal_point_pairs [THEN conjunct2, THEN conjunct1, THEN mp, OF h1,
        of "Some ''/api/location''" None]
      C10_only_decimal_point_pairs [THEN conjunct2, THEN conjunct2, THEN mp, OF h2,
        of "Some ''/api/location''" None]
    by simp
qed

section \<open>The leftmost match and the scenario of the body with 37.422,-122.084\<close>

lemma parseCoordinates_example: "parseCoordinates (Some ''37.422,-122.084'')
    = Some (to_double (37422 / 1000), to_double (- (122084 / 1000)))"
  by code_simp

lemma range_example: "num_ge (to_double (37422 / 1000)) (Fin (- 90)) \<and> num_le (to_double (37422 / 1000)) (Fin 90)
    \<and> num_ge (to_double (- (122084 / 1000))) (Fin (- 180)) \<and> num_le (to_double (- (122084 / 1000))) (Fin 180)"
  by code_simp

lemma exec_skip:
  "\<forall>i<length pre. exec_at p (drop i (pre @ s)) = None \<Longrightarrow> exec p (pre @ s) = exec p s"
proof (induction pre)
  case Nil
  then show ?case by simp
next
  case (Cons c pre)
  have "exec_at p (drop 0 ((c # pre) @ s)) = None"
    using Cons.prems by blast
  then have here: "exec_at p (c # pre @ s) = None" by simp
  have "\<forall>i<length pre. exec_at p (drop i (pre @ s)) = None"
  proof (intro allI impI)
    fix i assume "i < length pre"
    then have "Suc i < length (c # pre)" by simp
    then have "exec_at p (drop (Suc i) ((c # pre) @ s)) = None"
      using Cons.prems by blast
    then show "exec_at p (drop i (pre @ s)) = None" by simp
  qed
  then have "exec p (pre @ s) = exec p s" by (rule Cons.IH)
  then show ?case using here by simp
qed

lemma exec_coord_example:
  "exec coord_pattern ('',37.422,-122.084,'' @ post)
     = Some (''37.422,-122.084'', [], '','' @ post)"
  by (simp add: exec_at_def coord_pattern_def consumed_def is_digit_def is_ws_def)


lemma fetch_inspect_first:
  "match_all coord_pattern txt = m # ms \<Longrightarrow>
   fetch_inspect txt cur =
     (case parseCoordinates (Some m) of
        None \<Rightarrow> cur
      | Some (a, b) \<Rightarrow>
          if num_ge a (Fin (- 90)) \<and> num_le a (Fin 90) \<and>
             num_ge b (Fin (- 180)) \<and> num_le b (Fin 180)
          then Some \<lparr>lat = a, lng = b, source = ''fetch''\<rparr>
          else cur)"
  by (simp add: fetch_inspect_def)

lemma match_all_leftmost:
  assumes "match_all p s = m # ms"
  shows "\<exists>pre rest caps. s = pre @ m @ rest \<and> exec_at p (m @ rest) = Some (m, caps, rest)
           \<and> (\<forall>i<length pre. exec_at p (drop i s) = None)"
proof -
  obtain caps rest where e: "exec p s = Some (m, caps, rest)"
    using assms match_all_None [of p s] match_all_Some [of p s]
    by (cases "exec p s") auto
  from exec_leftmost [OF e] obtain pre s' where ps: "s = pre @ s'"
      "exec_at p s' = Some (m, caps, rest)" "\<forall>i<length pre. exec_at p (drop i s) = None"
    by blast
  from exec_at_split [OF ps(2)] have s': "s' = m @ rest" by blast
  have "s = pre @ m @ rest" using ps(1) s' by simp
  moreover have "exec_at p (m @ rest) = Some (m, caps, rest)" using ps(2) s' by simp
  ultimately show ?thesis using ps(3) by blast
qed

lemma fetch_inspect_example:
  assumes "\<forall>i<length pre. exec_at coord_pattern (drop i (pre @ '',37.422,-122.084,'' @ post)) = None"
  shows "fetch_inspect (pre @ '',37.422,-122.084,'' @ post) cur
     = Some \<lparr>lat = to_double (37422 / 1000), lng = to_double (- (122084 / 1000)), source = ''fetch''\<rparr>"
proof -
  have "exec coord_pattern (pre @ '',37.422,-122.084,'' @ post)
      = Some (''37.422,-122.084'', [], '','' @ post)"
    using exec_skip [OF assms] exec_coord_example by simp
  then obtain ms where "match_all coord_pattern (pre @ '',37.422,-122.084,'' @ post)
      = ''37.422,-122.084'' # ms"
    using match_all_Some by blast
  then show ?thesis
    using parseCoordinates_example range_example by (simp add: fetch_inspect_def)
qed

lemma wrapped_fetch_readable:
  assumes "str_includes url ''maps'' \<or> str_includes url ''location'' \<or> str_includes url ''coordinates''"
    and "resp < length h" "h ! resp = \<lparr>body = Inr t, bodyUsed = False\<rparr>"
  shows "wrapped_fetch (Some url) (Inr resp) (cur, h)
     = (Inr resp, fetch_inspect t cur, h @ [\<lparr>body = Inr t, bodyUsed = True\<rparr>])"
  using assms
  by (simp add: wrapped_fetch_def fetch_try_def clone_def response_text_def Let_def nth_append)

text \<open>
  Claim C6. Of a body with several pairs the wrapped fetch inspects the first element of the
  global match only: it is the match at the leftmost position where the expression
  matches, and the outcome is decided by that text alone. A body in which
  \<open>,37.422,-122.084,\<close> holds the leftmost match, on a URL with one of the three
  keywords in it, leaves the
  cache with the doubles nearest to 37.422 and -122.084, tagged \<open>fetch\<close>; the caller
  gets the response of the original fetch and the store only gains the clone.
\<close>

theorem C6_leftmost_match_only:
  "(match_all coord_pattern txt = m # ms \<longrightarrow>
      (\<exists>pre rest caps. txt = pre @ m @ rest
         \<and> exec_at coord_pattern (m @ rest) = Some (m, caps, rest)
         \<and> (\<forall>i<length pre. exec_at coord_pattern (drop i txt) = None))
      \<and> fetch_inspect txt cur =
          (case parseCoordinates (Some m) of
             None \<Rightarrow> cur
           | Some (a, b) \<Rightarrow>
               if num_ge a (Fin (- 90)) \<and> num_le a (Fin 90) \<and>
                  num_ge b (Fin (- 180)) \<and> num_le b (Fin 180)
               then Some \<lparr>lat = a, lng = b, source = ''fetch''\<rparr>
               else cur))
   \<and> ((\<forall>i<length pre. exec_at coord_pattern (drop i (pre @ '',37.422,-122.084,'' @ post)) = None)
        \<and> (str_includes url ''maps'' \<or> str_includes url ''location'' \<or> str_includes url ''coordinates'')
        \<and> resp < length h
        \<and> h ! resp = \<lparr>body = Inr (pre @ '',37.422,-122.084,'' @ post), bodyUsed = False\<rparr>
      \<longrightarrow> wrapped_fetch (Some url) (Inr resp) (cur, h)
            = (Inr resp,
               Some \<lparr>lat = to_double (37422 / 1000), lng = to_double (- (122084 / 1000)),
                      source = ''fetch''\<rparr>,
               h @ [\<lparr>body = Inr (pre @ '',37.422,-122.084,'' @ post), bodyUsed = True\<rparr>]))"
proof (intro conjI impI)
  assume a: "match_all coord_pattern txt = m # ms"
  show "\<exists>pre rest caps. txt = pre @ m @ rest
         \<and> exec_at coord_pattern (m @ rest) = Some (m, caps, rest)
         \<and> (\<forall>i<length pre. exec_at coord_pattern (drop i txt) = None)"
    using match_all_leftmost [OF a] .
  show "fetch_inspect txt cur =
          (case parseCoordinates (Some m) of
             None \<Rightarrow> cur
           | Some (a, b) \<Rightarrow>
               if num_ge a (Fin (- 90)) \<and> num_le a (Fin 90) \<and>
                  num_ge b (Fin (- 180)) \<and> num_le b (Fin 180)
               then Some \<lparr>lat = a, lng = b, source = ''fetch''\<rparr>
               else cur)"
    using fetch_inspect_first [OF a] .
next
  assume a: "(\<forall>i<length pre. exec_at coord_pattern (drop i (pre @ '',37.422,-122.084,'' @ post)) = None)
        \<and> (str_includes url ''maps'' \<or> str_includes url ''location'' \<or> str_includes url ''coordinates'')
        \<and> resp < length h
        \<and> h ! resp = \<lparr>body = Inr (pre @ '',37.422,-122.084,'' @ post), bodyUsed = False\<rparr>"
  then have 1: "\<forall>i<length pre. exec_at coord_pattern (drop i (pre @ '',37.422,-122.084,'' @ post)) = None"
    and 2: "str_includes url ''maps'' \<or> str_includes url ''location'' \<or> str_includes url ''coordinates''"
    and 3: "resp < length h"
    and 4: "h ! resp = \<lparr>body = Inr (pre @ '',37.422,-122.084,'' @ post), bodyUsed = False\<rparr>"
    by blast+
  show "wrapped_fetch (Some url) (Inr resp) (cur, h)
            = (Inr resp,
               Some \<lparr>lat = to_double (37422 / 1000), lng = to_double (- (122084 / 1000)),
                      source = ''fetch''\<rparr>,
               h @ [\<lparr>body = Inr (pre @ '',37.422,-122.084,'' @ post), bodyUsed = True\<rparr>])"
    using wrapped_fetch_readable [OF 2 3 4] fetch_inspect_example [OF 1] by simp
qed

text \<open>
  The body \<open>...,37.422,-122.084,...\<close>, and a body with two pairs, of which the first is
  stored.
\<close>

theorem C6_witness:
  "exec_at coord_pattern ''...,37.422,-122.084,...'' = None
   \<and> exec_at coord_pattern ''..,37.422,-122.084,...'' = None
   \<and> exec_at coord_pattern ''.,37.422,-122.084,...'' = None
   \<and> str_includes ''https://maps.example/api'' ''maps''
   \<and> wrapped_fetch (Some ''https://maps.example/api'') (Inr 0)
        (None, [\<lparr>body = Inr (''...'' @ '',37.422,-122.084,'' @ ''...''), bodyUsed = False\<rparr>])
      = (Inr 0,
         Some \<lparr>lat = to_double (37422 / 1000), lng = to_double (- (122084 / 1000)),
                source = ''fetch''\<rparr>,
         [\<lparr>body = Inr (''...'' @ '',37.422,-122.084,'' @ ''...''), bodyUsed = False\<rparr>]
           @ [\<lparr>body = Inr (''...'' @ '',37.422,-122.084,'' @ ''...''), bodyUsed = True\<rparr>])
   \<and> match_all coord_pattern ''1.5,2.5 37.422,-122.084'' = [''1.5,2.5'', ''37.422,-122.084'']
   \<and> fetch_inspect ''1.5,2.5 37.422,-122.084'' None
      = Some \<lparr>lat = Fin (3 / 2), lng = Fin (5 / 2), source = ''fetch''\<rparr>"
proof -
  have h1: "\<forall>i<length ''...''. exec_at coord_pattern (drop i (''...'' @ '',37.422,-122.084,'' @ ''...'')) = None"
    by (simp add: less_Suc_eq exec_at_def coord_pattern_def is_digit_def all_conj_distrib)
  have h2: "str_includes ''https://maps.example/api'' ''maps''"
    by code_simp
  have h: "(\<forall>i<length ''...''. exec_at coord_pattern (drop i (''...'' @ '',37.422,-122.084,'' @ ''...'')) = None)
        \<and> (str_includes ''https://maps.example/api'' ''maps''
             \<or> str_includes ''https://maps.example/api'' ''location''
             \<or> str_includes ''https://maps.example/api'' ''coordinates'')
        \<and> 0 < length [\<lparr>body = Inr (''...'' @ '',37.422,-122.084,'' @ ''...''), bodyUsed = False\<rparr>]
        \<and> [\<lparr>body = Inr (''...'' @ '',37.422,-122.084,'' @ ''...''), bodyUsed = False\<rparr>] ! 0
            = \<lparr>body = Inr (''...'' @ '',37.422,-122.084,'' @ ''...''), bodyUsed = False\<rparr>"
    using h1 h2 by simp
  have h3: "match_all coord_pattern ''1.5,2.5 37.422,-122.084'' = [''1.5,2.5'', ''37.422,-122.084'']"
    by code_simp
  have h4: "parseCoordinates (Some ''1.5,2.5'') = Some (Fin (3 / 2), Fin (5 / 2))"
    by code_simp
  have h5: "fetch_inspect ''1.5,2.5 37.422,-122.084'' None
      = Some \<lparr>lat = Fin (3 / 2), lng = Fin (5 / 2), source = ''fetch''\<rparr>"
    using C6_leftmost_match_only [THEN conjunct1, THEN mp, OF h3, THEN conjunct2, of None] h4
    by (simp add: num_ge_def)
  have h6: "exec_at coord_pattern ''...,37.422,-122.084,...'' = None
      \<and> exec_at coord_pattern ''..,37.422,-122.084,...'' = None
      \<and> exec_at coord_pattern ''.,37.422,-122.084,...'' = None"
    by (simp add: exec_at_def coord_pattern_def is_digit_def)
  show ?thesis
    using h2 h3 h5 h6 C6_leftmost_match_only [THEN conjunct2, THEN mp, OF h, of None]
    by simp
qed

section \<open>\<open>parseCoordinates\<close>\<close>

lemma js_split_not_Nil: "js_split sep s \<noteq> []"
  by (induction s) simp_all

lemma js_split_none: "sep \<notin> set s \<Longrightarrow> js_split sep s = [s]"
  by (induction s) auto

lemma js_split_one: "js_split sep s = [p] \<Longrightarrow> sep \<notin> set s \<and> p = s"
proof (induction s arbitrary: p)
  case Nil
  then show ?case by simp
next
  case (Cons c cs)
  show ?case
  proof (cases "c = sep")
    case True
    then have "js_split sep cs = []" using Cons.prems by simp
    then show ?thesis using js_split_not_Nil by blast
  next
    case False
    obtain q qs where q: "js_split sep cs = q # qs"
      using js_split_not_Nil [of sep cs] by (cases "js_split sep cs") auto
    then have "qs = []" "p = c # q" using Cons.prems False by simp_all
    then show ?thesis using Cons.IH [of q] q False by simp
  qed
qed

lemma js_split_two:
  "js_split sep s = [p1, p2] \<longleftrightarrow> s = p1 @ sep # p2 \<and> sep \<notin> set p1 \<and> sep \<notin> set p2"
proof
  show "js_split sep s = [p1, p2] \<Longrightarrow> s = p1 @ sep # p2 \<and> sep \<notin> set p1 \<and> sep \<notin> set p2"
  proof (induction s arbitrary: p1)
    case Nil
    then show ?case by simp
  next
    case (Cons c cs)
    show ?case
    proof (cases "c = sep")
      case True
      then have "p1 = []" "js_split sep cs = [p2]" using Cons.prems by simp_all
      then show ?thesis using js_split_one [of sep cs p2] True by simp
    next
      case False
      obtain q qs where q: "js_split sep cs = q # qs"
        using js_split_not_Nil [of sep cs] by (cases "js_split sep cs") auto
      then have "p1 = c # q" "qs = [p2]" using Cons.prems False by simp_all
      then show ?thesis using Cons.IH [of q] q False by simp
    qed
  qed
next
  assume a: "s = p1 @ sep # p2 \<and> sep \<notin> set p1 \<and> sep \<notin> set p2"
  have "sep \<notin> set q \<Longrightarrow> js_split sep (q @ sep # p2) = [q, p2]" for q
    using a by (induction q) (auto simp: js_split_none)
  then show "js_split sep s = [p1, p2]" using a by simp
qed

lemma to_double_not_NaN: "to_double q \<noteq> NaN"
  by (simp add: to_double_def Let_def)

lemma takeWhile_Nil_iff: "takeWhile P xs = [] \<longleftrightarrow> xs = [] \<or> \<not> P (hd xs)"
  by (cases xs) simp_all

lemma parseFloat_NaN_iff: "parseFloat s \<noteq> NaN \<longleftrightarrow> has_numeric_prefix s"
proof -
  define t where "t = dropWhile is_ws s"
  define u where "u = (if t \<noteq> [] \<and> (hd t = CHR ''-'' \<or> hd t = CHR ''+'') then tl t else t)"
  define r1 where "r1 = dropWhile is_digit u"
  show ?thesis
  proof (cases "starts_with ''Infinity'' u")
    case True
    then show ?thesis
      unfolding parseFloat_def has_numeric_prefix_def t_def [symmetric] Let_def u_def [symmetric]
      by simp
  next
    case notinf: False
    show ?thesis
    proof (cases "u \<noteq> [] \<and> is_digit (hd u)")
      case True
      then have "takeWhile is_digit u \<noteq> []" by (simp add: takeWhile_Nil_iff)
      then show ?thesis
        using True notinf
        unfolding parseFloat_def has_numeric_prefix_def t_def [symmetric] Let_def u_def [symmetric]
        by (simp add: to_double_not_NaN)
    next
      case False
      then have ip: "takeWhile is_digit u = []" and r1: "dropWhile is_digit u = u"
        by (cases u; simp)+
      show ?thesis
        using False notinf
        unfolding parseFloat_def has_numeric_prefix_def t_def [symmetric] Let_def u_def [symmetric]
          ip r1
        by (auto simp: to_double_not_NaN takeWhile_Nil_iff)
    qed
  qed
qed

lemma parseCoordinates_Some_iff:
  "parseCoordinates x = Some (a, b) \<longleftrightarrow>
     (\<exists>p1 p2. x = Some (p1 @ CHR '','' # p2) \<and> CHR '','' \<notin> set p1 \<and> CHR '','' \<notin> set p2
        \<and> a = parseFloat (trim p1) \<and> b = parseFloat (trim p2) \<and> a \<noteq> NaN \<and> b \<noteq> NaN)"
proof
  assume a: "parseCoordinates x = Some (a, b)"
  then obtain s where x: "x = Some s" and s: "s \<noteq> []"
    by (cases x) (auto simp: parseCoordinates_def split: if_splits)
  from a x s have len: "length (js_split CHR '','' s) = 2"
    by (auto simp: parseCoordinates_def Let_def split: if_splits)
  then obtain p1 p2 where sp: "js_split CHR '','' s = [p1, p2]"
    by (cases "js_split CHR '','' s"; cases "tl (js_split CHR '','' s)") auto
  then have "a = parseFloat (trim p1) \<and> b = parseFloat (trim p2) \<and> a \<noteq> NaN \<and> b \<noteq> NaN"
    using a x s by (auto simp: parseCoordinates_def Let_def isNaN_def split: if_splits)
  moreover have "s = p1 @ CHR '','' # p2 \<and> CHR '','' \<notin> set p1 \<and> CHR '','' \<notin> set p2"
    using sp js_split_two by blast
  ultimately show "\<exists>p1 p2. x = Some (p1 @ CHR '','' # p2) \<and> CHR '','' \<notin> set p1 \<and> CHR '','' \<notin> set p2
        \<and> a = parseFloat (trim p1) \<and> b = parseFloat (trim p2) \<and> a \<noteq> NaN \<and> b \<noteq> NaN"
    using x by blast
next
  assume "\<exists>p1 p2. x = Some (p1 @ CHR '','' # p2) \<and> CHR '','' \<notin> set p1 \<and> CHR '','' \<notin> set p2
        \<and> a = parseFloat (trim p1) \<and> b = parseFloat (trim p2) \<and> a \<noteq> NaN \<and> b \<noteq> NaN"
  then obtain p1 p2 where p: "x = Some (p1 @ CHR '','' # p2)" "CHR '','' \<notin> set p1" "CHR '','' \<notin> set p2"
      "a = parseFloat (trim p1)" "b = parseFloat (trim p2)" "a \<noteq> NaN" "b \<noteq> NaN"
    by blast
  have "js_split CHR '','' (p1 @ CHR '','' # p2) = [p1, p2]"
    using p(2,3) js_split_two by blast
  then show "parseCoordinates x = Some (a, b)"
    using p by (simp add: parseCoordinates_def isNaN_def)
qed

text \<open>
  Claim C9. \<open>parseCoordinates\<close> returns a pair exactly for a string that holds one comma
  and whose two parts, trimmed, each start with a number; the pair is what \<open>parseFloat\<close>
  reads from the two parts, whatever follows the numbers and whatever their size. It
  returns \<open>null\<close> exactly for an absent or empty argument and for a string that is not
  of that form. So \<open>12.5abc, 30.2xyz\<close> gives the doubles nearest to 12.5 and 30.2, and
  \<open>95,200\<close> gives 95 and 200.
\<close>

theorem C9_parseCoordinates_accepts_numeric_prefixes:
  "(parseCoordinates x = Some (a, b) \<longleftrightarrow>
     (\<exists>p1 p2. x = Some (p1 @ CHR '','' # p2) \<and> CHR '','' \<notin> set p1 \<and> CHR '','' \<notin> set p2
        \<and> has_numeric_prefix (trim p1) \<and> has_numeric_prefix (trim p2)
        \<and> a = parseFloat (trim p1) \<and> b = parseFloat (trim p2)))
   \<and> (parseCoordinates x = None \<longleftrightarrow>
        x = None \<or> x = Some [] \<or>
        \<not> (\<exists>p1 p2. x = Some (p1 @ CHR '','' # p2) \<and> CHR '','' \<notin> set p1 \<and> CHR '','' \<notin> set p2
             \<and> has_numeric_prefix (trim p1) \<and> has_numeric_prefix (trim p2)))
   \<and> parseCoordinates (Some ''12.5abc, 30.2xyz'') = Some (to_double (125 / 10), to_double (302 / 10))
   \<and> parseCoordinates (Some ''95,200'') = Some (Fin 95, Fin 200)"
proof (intro conjI)
  show 1: "parseCoordinates x = Some (a, b) \<longleftrightarrow>
     (\<exists>p1 p2. x = Some (p1 @ CHR '','' # p2) \<and> CHR '','' \<notin> set p1 \<and> CHR '','' \<notin> set p2
        \<and> has_numeric_prefix (trim p1) \<and> has_numeric_prefix (trim p2)
        \<and> a = parseFloat (trim p1) \<and> b = parseFloat (trim p2))" for a b
    unfolding parseCoordinates_Some_iff parseFloat_NaN_iff [symmetric] by blast
  have "parseCoordinates x = None \<longleftrightarrow> \<not> (\<exists>a b. parseCoordinates x = Some (a, b))"
    by (cases "parseCoordinates x") auto
  also have "\<dots> \<longleftrightarrow> \<not> (\<exists>p1 p2. x = Some (p1 @ CHR '','' # p2) \<and> CHR '','' \<notin> set p1 \<and> CHR '','' \<notin> set p2
             \<and> has_numeric_prefix (trim p1) \<and> has_numeric_prefix (trim p2))"
    unfolding 1 by blast
  finally show "parseCoordinates x = None \<longleftrightarrow>
        x = None \<or> x = Some [] \<or>
        \<not> (\<exists>p1 p2. x = Some (p1 @ CHR '','' # p2) \<and> CHR '','' \<notin> set p1 \<and> CHR '','' \<notin> set p2
             \<and> has_numeric_prefix (trim p1) \<and> has_numeric_prefix (trim p2))"
    by auto
  show "parseCoordinates (Some ''12.5abc, 30.2xyz'') = Some (to_double (125 / 10), to_double (302 / 10))"
    by code_simp
  show "parseCoordinates (Some ''95,200'') = Some (Fin 95, Fin 200)"
    by code_simp
qed

section \<open>The \<open>pb\<close> matcher on decimal numerals\<close>

lemma digit_char_cases:
  "(d::nat) < 10 \<Longrightarrow> d = 0 \<or> d = 1 \<or> d = 2 \<or> d = 3 \<or> d = 4 \<or> d = 5 \<or> d = 6 \<or> d = 7 \<or> d = 8 \<or> d = 9"
  by arith

lemma is_digit_digit_char: "d < 10 \<Longrightarrow> is_digit (digit_char d)"
  using digit_char_cases [of d] by (auto simp: is_digit_def digit_char_def)

lemma digit_val_digit_char: "d < 10 \<Longrightarrow> digit_val (digit_char d) = d"
  using digit_char_cases [of d] by (auto simp: digit_val_def digit_char_def)

lemma is_digit_not_special:
  "is_digit c \<Longrightarrow> c \<noteq> CHR ''-'' \<and> c \<noteq> CHR ''+'' \<and> c \<noteq> CHR ''.'' \<and> c \<noteq> CHR ''I''
     \<and> c \<noteq> CHR ''!'' \<and> \<not> is_ws c"
  by (auto simp: is_digit_def is_ws_def)

lemma digits_all: "list_all (\<lambda>d. d < 10) ds \<Longrightarrow> list_all is_digit (map digit_char ds)"
  by (induction ds) (simp_all add: is_digit_digit_char)

lemma digits_value_foldl:
  "list_all (\<lambda>d. d < 10) ds \<Longrightarrow>
     foldl (\<lambda>a c. 10 * a + digit_val c) acc (map digit_char ds) = foldl (\<lambda>a d. 10 * a + d) acc ds"
  by (induction ds arbitrary: acc) (simp_all add: digit_val_digit_char)

lemma digits_value_digits: "list_all (\<lambda>d. d < 10) ds \<Longrightarrow> digits_value (map digit_char ds) = digits_nat ds"
  by (simp add: digits_value_def digits_nat_def digits_value_foldl)

lemma takeWhile_all: "list_all P xs \<Longrightarrow> r = [] \<or> \<not> P (hd r) \<Longrightarrow> takeWhile P (xs @ r) = xs"
  by (induction xs) (auto simp: takeWhile_Nil_iff)

lemma dropWhile_all: "list_all P xs \<Longrightarrow> r = [] \<or> \<not> P (hd r) \<Longrightarrow> dropWhile P (xs @ r) = r"
  by (induction xs) (auto simp: dropWhile_eq_self_iff)

lemma parseFloat_digits:
  assumes sg: "sg = [] \<or> sg = ''-''"
    and D: "D \<noteq> []" "list_all is_digit D" and F: "list_all is_digit F"
    and tail: "tail = [] \<and> F = [] \<or> tail = CHR ''.'' # F"
  shows "parseFloat (sg @ D @ tail)
     = (if sg = ''-'' then to_double (- (of_nat (digits_value D) + of_nat (digits_value F) / 10 ^ length F))
        else to_double (of_nat (digits_value D) + of_nat (digits_value F) / 10 ^ length F))"
proof -
  obtain c D' where Dc: "D = c # D'" using D(1) by (cases D) auto
  have c: "is_digit c" using D(2) Dc by simp
  note cs = is_digit_not_special [OF c]
  define u where "u = D @ tail"
  have notinf: "\<not> starts_with ''Infinity'' u"
    using cs by (simp add: starts_with_def u_def Dc)
  have tl_nd: "tail = [] \<or> \<not> is_digit (hd tail)"
    using tail by (auto simp: is_digit_def)
  have ip: "takeWhile is_digit u = D" and r1: "dropWhile is_digit u = tail"
    unfolding u_def using takeWhile_all [OF D(2) tl_nd] dropWhile_all [OF D(2) tl_nd] by simp_all
  have fp: "(if tail \<noteq> [] \<and> hd tail = CHR ''.'' then takeWhile is_digit (tl tail) else []) = F"
    using tail takeWhile_all [OF F, of "[]"] by auto
  have r2: "(if tail \<noteq> [] \<and> hd tail = CHR ''.'' then dropWhile is_digit (tl tail) else tail) = []"
    using tail dropWhile_all [OF F, of "[]"] by auto
  have t: "dropWhile is_ws (sg @ D @ tail) = sg @ u"
    using sg cs by (auto simp: u_def Dc is_ws_def)
  have strip: "(if sg @ u \<noteq> [] \<and> (hd (sg @ u) = CHR ''-'' \<or> hd (sg @ u) = CHR ''+'') then tl (sg @ u) else sg @ u) = u"
    using sg cs by (auto simp: u_def Dc)
  have neg: "(sg @ u \<noteq> [] \<and> hd (sg @ u) = CHR ''-'') = (sg = ''-'')"
    using sg cs by (auto simp: u_def Dc)
  show ?thesis
    unfolding parseFloat_def t Let_def strip neg ip r1 fp r2
    using notinf D(1) by (simp add: exponent_part_def pow10_def)
qed

lemma parseFloat_decimal:
  assumes "ip \<noteq> []" "list_all (\<lambda>d. d < 10) ip" "list_all (\<lambda>d. d < 10) fp"
  shows "parseFloat (decimal neg ip fp) = to_double (decimal_value neg ip fp)"
proof -
  let ?D = "map digit_char ip" and ?F = "map digit_char fp"
  let ?tail = "if fp = [] then [] else CHR ''.'' # ?F"
  let ?sg = "if neg then ''-'' else []"
  have D: "?D \<noteq> []" "list_all is_digit ?D" and F: "list_all is_digit ?F"
    using assms by (simp_all add: digits_all)
  have tail: "?tail = [] \<and> ?F = [] \<or> ?tail = CHR ''.'' # ?F" by simp
  have sg: "?sg = [] \<or> ?sg = ''-''" by simp
  have "parseFloat (?sg @ ?D @ ?tail)
     = (if ?sg = ''-'' then to_double (- (of_nat (digits_value ?D) + of_nat (digits_value ?F) / 10 ^ length ?F))
        else to_double (of_nat (digits_value ?D) + of_nat (digits_value ?F) / 10 ^ length ?F))"
    by (rule parseFloat_digits [OF sg D F tail])
  then show ?thesis
    using assms by (simp add: decimal_def decimal_value_def digits_value_digits Let_def)
qed


lemma star_first:
  "list_all (in_cls k) b \<Longrightarrow> rest = [] \<or> \<not> in_cls k (hd rest) \<Longrightarrow> \<exists>t. star k (b @ rest) = rest # t"
proof (induction b)
  case Nil
  then show ?case by (cases rest) auto
next
  case (Cons x b)
  then obtain t where "star k (b @ rest) = rest # t" by auto
  then have "star k ((x # b) @ rest) = rest # (t @ [x # b @ rest])"
    using Cons.prems by simp
  then show ?case by blast
qed

lemma concat_run_Nil: "concat (map (run []) xs) = xs"
  by (induction xs) simp_all

lemma run_number_first:
  assumes sg: "sg = [] \<or> sg = ''-''" and b: "b \<noteq> []" "list_all (in_cls DigitOrDot) b"
    and rest: "rest = [] \<or> \<not> in_cls DigitOrDot (hd rest)"
  shows "\<exists>others. run [Opt CHR ''-'', Plus DigitOrDot] (sg @ b @ rest) = rest # others"
proof -
  obtain x b' where xb: "b = x # b'" using b(1) by (cases b) auto
  have x: "in_cls DigitOrDot x" and b': "list_all (in_cls DigitOrDot) b'"
    using b(2) xb by simp_all
  from star_first [OF b' rest] obtain t where t: "star DigitOrDot (b' @ rest) = rest # t"
    by blast
  have xm: "x \<noteq> CHR ''-''" using x by (auto simp: is_digit_def)
  show ?thesis
  proof (cases "sg = []")
    case True
    then have "run [Opt CHR ''-'', Plus DigitOrDot] (sg @ b @ rest) = rest # t"
      using xb x xm t by (simp add: concat_run_Nil)
    then show ?thesis by blast
  next
    case False
    then have "sg = ''-''" using sg by simp
    moreover have "\<not> is_digit CHR ''-''" by (simp add: is_digit_def)
    ultimately have "run [Opt CHR ''-'', Plus DigitOrDot] (sg @ b @ rest) = rest # t"
      using xb x xm t by (simp add: concat_run_Nil)
    then show ?thesis by blast
  qed
qed

lemma consumed_append: "consumed (m @ r) r = m"
  by (simp add: consumed_def)

lemma parts_run_group_first:
  assumes "run g (m @ r) = r # others" "parts_run ps r = (caps, r') # alts"
  shows "\<exists>alts'. parts_run (Group g # ps) (m @ r) = (m # caps, r') # alts'"
  using assms by (simp add: consumed_append)

lemma decimal_shape:
  assumes "ip \<noteq> []" "list_all (\<lambda>d. d < 10) ip" "list_all (\<lambda>d. d < 10) fp"
  shows "\<exists>sg b. decimal neg ip fp = sg @ b \<and> (sg = [] \<or> sg = ''-'') \<and> b \<noteq> []
           \<and> list_all (in_cls DigitOrDot) b"
proof -
  let ?b = "map digit_char ip @ (if fp = [] then [] else CHR ''.'' # map digit_char fp)"
  let ?sg = "if neg then ''-'' else []"
  have "list_all is_digit (map digit_char ip)" "list_all is_digit (map digit_char fp)"
    using assms by (simp_all add: digits_all)
  then have "list_all (in_cls DigitOrDot) ?b"
    by (auto simp: list_all_iff)
  moreover have "?b \<noteq> []" using assms(1) by simp
  moreover have "decimal neg ip fp = ?sg @ ?b" by (simp add: decimal_def)
  moreover have "?sg = [] \<or> ?sg = ''-''" by simp
  ultimately show ?thesis by blast
qed

lemma exec_at_pb_numbers:
  assumes e1: "e1 = sg1 @ b1" "sg1 = [] \<or> sg1 = ''-''" "b1 \<noteq> []" "list_all (in_cls DigitOrDot) b1"
    and e2: "e2 = sg2 @ b2" "sg2 = [] \<or> sg2 = ''-''" "b2 \<noteq> []" "list_all (in_cls DigitOrDot) b2"
    and post: "post = [] \<or> \<not> in_cls DigitOrDot (hd post)"
  shows "exec_at pb_pattern (''!3d'' @ e1 @ ''!4d'' @ e2 @ post)
     = Some (''!3d'' @ e1 @ ''!4d'' @ e2, [e1, e2], post)"
proof -
  let ?g = "[Opt CHR ''-'', Plus DigitOrDot]"
  from run_number_first [OF e2(2,3,4) post] obtain o2 where
    r2: "run ?g (e2 @ post) = post # o2"
    using e2(1) by auto
  from parts_run_group_first [OF r2, of "[]" "[]" post "[]"] obtain m2 where
    p2: "parts_run [Group ?g] (e2 @ post) = ([e2], post) # m2"
    by auto
  have p3: "parts_run [Plain [Ch CHR ''!'', Ch CHR ''4'', Ch CHR ''d''], Group ?g] (''!4d'' @ e2 @ post)
      = ([e2], post) # m2"
    using p2 by simp
  have "\<not> in_cls DigitOrDot (hd (''!4d'' @ e2 @ post))"
    by (simp add: is_digit_def)
  then have "''!4d'' @ e2 @ post = [] \<or> \<not> in_cls DigitOrDot (hd (''!4d'' @ e2 @ post))"
    by blast
  from run_number_first [OF e1(2,3,4) this] obtain o1 where
    r1: "run ?g (e1 @ ''!4d'' @ e2 @ post) = (''!4d'' @ e2 @ post) # o1"
    using e1(1) by auto
  from parts_run_group_first [OF r1 p3] obtain m1 where
    p4: "parts_run [Group ?g, Plain [Ch CHR ''!'', Ch CHR ''4'', Ch CHR ''d''], Group ?g]
           (e1 @ ''!4d'' @ e2 @ post) = ([e1, e2], post) # m1"
    by blast
  have "parts_run pb_pattern (''!3d'' @ e1 @ ''!4d'' @ e2 @ post) = ([e1, e2], post) # m1"
    unfolding pb_pattern_def using p4 by simp
  moreover have "consumed (''!3d'' @ e1 @ ''!4d'' @ e2 @ post) post = ''!3d'' @ e1 @ ''!4d'' @ e2"
    using consumed_append [of "''!3d'' @ e1 @ ''!4d'' @ e2" post] by simp
  ultimately show ?thesis
    by (simp add: exec_at_def)
qed

lemma pb_match_decimal:
  assumes n1: "ip1 \<noteq> []" "list_all (\<lambda>d. d < 10) ip1" "list_all (\<lambda>d. d < 10) fp1"
    and n2: "ip2 \<noteq> []" "list_all (\<lambda>d. d < 10) ip2" "list_all (\<lambda>d. d < 10) fp2"
    and post: "post = [] \<or> \<not> (is_digit (hd post) \<or> hd post = CHR ''.'')"
    and pre: "\<forall>i<length pre. exec_at pb_pattern
        (drop i (pre @ ''!3d'' @ decimal neg1 ip1 fp1 @ ''!4d'' @ decimal neg2 ip2 fp2 @ post)) = None"
  shows "pb_match (pre @ ''!3d'' @ decimal neg1 ip1 fp1 @ ''!4d'' @ decimal neg2 ip2 fp2 @ post)
     = Some \<lparr>lat = to_double (decimal_value neg1 ip1 fp1),
              lng = to_double (decimal_value neg2 ip2 fp2), source = ''iframe-pb''\<rparr>"
proof -
  let ?e1 = "decimal neg1 ip1 fp1" and ?e2 = "decimal neg2 ip2 fp2"
  let ?s = "''!3d'' @ ?e1 @ ''!4d'' @ ?e2 @ post"
  from decimal_shape [OF n1] obtain sg1 b1 where e1: "?e1 = sg1 @ b1" "sg1 = [] \<or> sg1 = ''-''"
      "b1 \<noteq> []" "list_all (in_cls DigitOrDot) b1"
    by blast
  from decimal_shape [OF n2] obtain sg2 b2 where e2: "?e2 = sg2 @ b2" "sg2 = [] \<or> sg2 = ''-''"
      "b2 \<noteq> []" "list_all (in_cls DigitOrDot) b2"
    by blast
  have post': "post = [] \<or> \<not> in_cls DigitOrDot (hd post)" using post by simp
  have at: "exec_at pb_pattern ?s = Some (''!3d'' @ ?e1 @ ''!4d'' @ ?e2, [?e1, ?e2], post)"
    by (rule exec_at_pb_numbers [OF e1 e2 post'])
  have "exec pb_pattern ?s = Some (''!3d'' @ ?e1 @ ''!4d'' @ ?e2, [?e1, ?e2], post)"
    using at by simp
  moreover have "exec pb_pattern (pre @ ?s) = exec pb_pattern ?s"
    by (rule exec_skip [OF pre])
  ultimately have "exec pb_pattern (pre @ ?s) = Some (''!3d'' @ ?e1 @ ''!4d'' @ ?e2, [?e1, ?e2], post)"
    by simp
  then show ?thesis
    by (simp add: pb_match_def parseFloat_decimal [OF n1] parseFloat_decimal [OF n2])
qed


text \<open>
  Claim C7. A \<open>pb\<close> parameter that holds \<open>!3d\<close>, a decimal numeral, \<open>!4d\<close> and a
  second decimal numeral, not followed by a digit or a point, with no earlier match of the
  expression, gives the pair of the doubles nearest to the two numerals, tagged
  \<open>iframe-pb\<close>: the numbers that were written, for every pair of numerals and so for
  every latitude in [-90, 90] and longitude in [-180, 180].
\<close>

theorem C7_pb_round_trip:
  assumes "ip1 \<noteq> []" "list_all (\<lambda>d. d < 10) ip1" "list_all (\<lambda>d. d < 10) fp1"
    and "ip2 \<noteq> []" "list_all (\<lambda>d. d < 10) ip2" "list_all (\<lambda>d. d < 10) fp2"
    and "post = [] \<or> \<not> (is_digit (hd post) \<or> hd post = CHR ''.'')"
    and "\<forall>i<length pre. exec_at pb_pattern
        (drop i (pre @ ''!3d'' @ decimal neg1 ip1 fp1 @ ''!4d'' @ decimal neg2 ip2 fp2 @ post)) = None"
    and "new_URL f = Inr ps"
    and "searchParams_get ps ''pb''
        = Some (pre @ ''!3d'' @ decimal neg1 ip1 fp1 @ ''!4d'' @ decimal neg2 ip2 fp2 @ post)"
  shows "pb_match (pre @ ''!3d'' @ decimal neg1 ip1 fp1 @ ''!4d'' @ decimal neg2 ip2 fp2 @ post)
      = Some \<lparr>lat = to_double (decimal_value neg1 ip1 fp1),
               lng = to_double (decimal_value neg2 ip2 fp2), source = ''iframe-pb''\<rparr>
    \<and> scan_iframe f
      = Inr (Some \<lparr>lat = to_double (decimal_value neg1 ip1 fp1),
                    lng = to_double (decimal_value neg2 ip2 fp2), source = ''iframe-pb''\<rparr>)"
proof -
  have m: "pb_match (pre @ ''!3d'' @ decimal neg1 ip1 fp1 @ ''!4d'' @ decimal neg2 ip2 fp2 @ post)
      = Some \<lparr>lat = to_double (decimal_value neg1 ip1 fp1),
               lng = to_double (decimal_value neg2 ip2 fp2), source = ''iframe-pb''\<rparr>"
    by (rule pb_match_decimal [OF assms(1-8)])
  from scan_iframe_pb_first [OF assms(9) assms(10) m] m show ?thesis by simp
qed

text \<open>
  The parameter \<open>!3d48.8566!4d2.3522\<close>, and a parameter with other fields around the two
  markers.
\<close>

theorem C7_witness:
  "decimal False [4, 8] [8, 5, 6, 6] = ''48.8566'' \<and> decimal_value False [4, 8] [8, 5, 6, 6] = 488566 / 10000
   \<and> decimal False [2] [3, 5, 2, 2] = ''2.3522'' \<and> decimal_value False [2] [3, 5, 2, 2] = 23522 / 10000
   \<and> pb_match ''!3d48.8566!4d2.3522''
      = Some \<lparr>lat = to_double (488566 / 10000), lng = to_double (23522 / 10000), source = ''iframe-pb''\<rparr>
   \<and> scan_iframe \<lparr>src_attr = ''https://www.google.com/maps/embed?pb=!3d48.8566!4d2.3522'',
                   new_URL = Inr [(''pb'', ''!3d48.8566!4d2.3522'')]\<rparr>
      = Inr (Some \<lparr>lat = to_double (488566 / 10000), lng = to_double (23522 / 10000),
                    source = ''iframe-pb''\<rparr>)
   \<and> decimal False [3, 7] [] = ''37'' \<and> decimal_value False [3, 7] [] = 37
   \<and> decimal True [1, 2, 2] [0, 8, 4] = ''-122.084''
   \<and> decimal_value True [1, 2, 2] [0, 8, 4] = - (122084 / 1000)
   \<and> pb_match ''!1m3!2d5.5!3d37!4d-122.084!5e0''
      = Some \<lparr>lat = to_double 37, lng = to_double (- (122084 / 1000)), source = ''iframe-pb''\<rparr>"
proof -
  let ?f = "\<lparr>src_attr = ''https://www.google.com/maps/embed?pb=!3d48.8566!4d2.3522'',
             new_URL = Inr [(''pb'', ''!3d48.8566!4d2.3522'')]\<rparr>"
  have d1: "decimal False [4, 8] [8, 5, 6, 6] = ''48.8566''"
    and d2: "decimal False [2] [3, 5, 2, 2] = ''2.3522''"
    by (simp_all add: decimal_def digit_char_def)
  have v1: "decimal_value False [4, 8] [8, 5, 6, 6] = 488566 / 10000"
    and v2: "decimal_value False [2] [3, 5, 2, 2] = 23522 / 10000"
    by (simp_all add: decimal_value_def digits_nat_def)
  have h8: "\<forall>i<length ([]::string). exec_at pb_pattern
        (drop i ([] @ ''!3d'' @ decimal False [4, 8] [8, 5, 6, 6] @ ''!4d'' @ decimal False [2] [3, 5, 2, 2] @ [])) = None"
    by simp
  have h10: "searchParams_get [(''pb'', ''!3d48.8566!4d2.3522'')] ''pb''
        = Some ([] @ ''!3d'' @ decimal False [4, 8] [8, 5, 6, 6] @ ''!4d'' @ decimal False [2] [3, 5, 2, 2] @ [])"
    by (simp add: d1 d2 searchParams_get_def)
  have h9: "new_URL ?f = Inr [(''pb'', ''!3d48.8566!4d2.3522'')]"
    by simp
  have "pb_match ([] @ ''!3d'' @ decimal False [4, 8] [8, 5, 6, 6] @ ''!4d'' @ decimal False [2] [3, 5, 2, 2] @ [])
      = Some \<lparr>lat = to_double (decimal_value False [4, 8] [8, 5, 6, 6]),
               lng = to_double (decimal_value False [2] [3, 5, 2, 2]), source = ''iframe-pb''\<rparr>
    \<and> scan_iframe ?f
      = Inr (Some \<lparr>lat = to_double (decimal_value False [4, 8] [8, 5, 6, 6]),
                    lng = to_double (decimal_value False [2] [3, 5, 2, 2]), source = ''iframe-pb''\<rparr>)"
    by (rule C7_pb_round_trip [OF _ _ _ _ _ _ _ h8 h9 h10]) simp_all
  then have first: "pb_match ''!3d48.8566!4d2.3522''
      = Some \<lparr>lat = to_double (488566 / 10000), lng = to_double (23522 / 10000), source = ''iframe-pb''\<rparr>
    \<and> scan_iframe ?f
      = Inr (Some \<lparr>lat = to_double (488566 / 10000), lng = to_double (23522 / 10000),
                    source = ''iframe-pb''\<rparr>)"
    unfolding d1 d2 v1 v2 by simp
  let ?g = "\<lparr>src_attr = ''https://www.google.com/maps/embed'',
             new_URL = Inr [(''pb'', ''!1m3!2d5.5!3d37!4d-122.084!5e0'')]\<rparr>"
  have d3: "decimal False [3, 7] [] = ''37''"
    and d4: "decimal True [1, 2, 2] [0, 8, 4] = ''-122.084''"
    by (simp_all add: decimal_def digit_char_def)
  have v3: "decimal_value False [3, 7] [] = 37"
    and v4: "decimal_value True [1, 2, 2] [0, 8, 4] = - (122084 / 1000)"
    by (simp_all add: decimal_value_def digits_nat_def)
  have g7: "''!5e0'' = [] \<or> \<not> (is_digit (hd ''!5e0'') \<or> hd ''!5e0'' = CHR ''.'')"
    by (simp add: is_digit_def)
  have g8: "\<forall>i<length ''!1m3!2d5.5''. exec_at pb_pattern
        (drop i (''!1m3!2d5.5'' @ ''!3d'' @ decimal False [3, 7] [] @ ''!4d''
                   @ decimal True [1, 2, 2] [0, 8, 4] @ ''!5e0'')) = None"
    unfolding d3 d4
    by (simp add: less_Suc_eq exec_at_def pb_pattern_def all_conj_distrib)
  have g10: "searchParams_get [(''pb'', ''!1m3!2d5.5!3d37!4d-122.084!5e0'')] ''pb''
        = Some (''!1m3!2d5.5'' @ ''!3d'' @ decimal False [3, 7] [] @ ''!4d''
                  @ decimal True [1, 2, 2] [0, 8, 4] @ ''!5e0'')"
    unfolding d3 d4 by (simp add: searchParams_get_def)
  have g9: "new_URL ?g = Inr [(''pb'', ''!1m3!2d5.5!3d37!4d-122.084!5e0'')]"
    by simp
  have "pb_match (''!1m3!2d5.5'' @ ''!3d'' @ decimal False [3, 7] [] @ ''!4d''
                    @ decimal True [1, 2, 2] [0, 8, 4] @ ''!5e0'')
      = Some \<lparr>lat = to_double (decimal_value False [3, 7] []),
               lng = to_double (decimal_value True [1, 2, 2] [0, 8, 4]), source = ''iframe-pb''\<rparr>
    \<and> scan_iframe ?g
      = Inr (Some \<lparr>lat = to_double (decimal_value False [3, 7] []),
                    lng = to_double (decimal_value True [1, 2, 2] [0, 8, 4]), source = ''iframe-pb''\<rparr>)"
    by (rule C7_pb_round_trip [OF _ _ _ _ _ _ g7 g8 g9 g10]) simp_all
  then have second: "pb_match ''!1m3!2d5.5!3d37!4d-122.084!5e0''
      = Some \<lparr>lat = to_double 37, lng = to_double (- (122084 / 1000)), source = ''iframe-pb''\<rparr>"
    unfolding d3 d4 v3 v4 by simp
  show ?thesis
    using first second d1 d2 d3 d4 v1 v2 v3 v4 by simp
qed

end
